theory Spec2Isabelle
  imports Complex_Main "HOL-Library.Log_Nat" "HOL-Library.Multiset"
begin

section \<open>JavaScript Number arithmetic\<close>

text \<open>
  A finite JavaScript Number is a binary64 value, hence a rational; the model keeps it as
  a \<^typ>\<open>rat\<close> and rounds after every arithmetic operation, as IEEE 754 does
  (round to nearest, ties to even, on a 53-bit significand). The exponent range is not
  modelled: every value computed by the aggregation lies between 1/10 and 2^53, far from
  overflow and from the subnormal numbers.
\<close>

text \<open>
  \<open>rhe\<close> rounds to the nearest integer, a half to the even neighbour; \<open>ilog2 x\<close> is the
  binary exponent of a positive \<open>x\<close>, the \<open>k\<close> with \<open>2^k \<le> x < 2^(k+1)\<close>, computed from
  the bit lengths of numerator and denominator; \<open>fl x\<close> is the binary64 value nearest to
  \<open>x\<close>: the significand \<open>x / 2^(k-52)\<close> rounded to an integer of 53 bits, scaled back.
  \<open>js_add\<close> and \<open>js_div\<close> are \<open>+\<close> and \<open>/\<close> on Numbers.
\<close>

definition rhe :: "rat \<Rightarrow> int" where
  "rhe y = (let f = \<lfloor>y\<rfloor>; d = y - of_int f in
     if d < 1 / 2 then f else if 1 / 2 < d then f + 1 else if even f then f else f + 1)"

definition ilog2 :: "rat \<Rightarrow> int" where
  "ilog2 x = (case quotient_of x of (p, q) \<Rightarrow>
     let d = bitlen p - bitlen q in if 2 powi d \<le> x then d else d - 1)"

definition fl :: "rat \<Rightarrow> rat" where
  "fl x = (if x = 0 then 0 else
     let k = ilog2 \<bar>x\<bar>; m = rhe (\<bar>x\<bar> * 2 powi (52 - k))
     in sgn x * of_int m * 2 powi (k - 52))"

definition js_add :: "rat \<Rightarrow> rat \<Rightarrow> rat" where
  "js_add a b = fl (a + b)"

definition js_div :: "rat \<Rightarrow> rat \<Rightarrow> rat" where
  "js_div a b = fl (a / b)"

text \<open>
  \<open>Decimal n f\<close> is the decimal numeral with \<open>f\<close> fractional digits whose value is
  \<open>n / 10^f\<close>: the strings that \<open>toFixed\<close> produces and \<open>parseFloat\<close> reads.
  \<open>Number.prototype.toFixed\<close>: "let n be an integer for which n / 10^f - x is as close
  to zero as possible; if there are two such n, pick the larger n", the sign of a negative
  \<open>x\<close> being split off first; from 10^21 on the Number is printed by \<open>ToString\<close>, which
  \<open>parseFloat\<close> reads back unchanged.
\<close>

datatype decimal = Decimal int nat

definition toFixed :: "rat \<Rightarrow> nat \<Rightarrow> decimal" where
  "toFixed x f = (if 10 ^ 21 \<le> \<bar>x\<bar> then Decimal \<lfloor>x\<rfloor> 0
     else if x < 0 then Decimal (- \<lfloor>- x * 10 ^ f + 1 / 2\<rfloor>) f
     else Decimal \<lfloor>x * 10 ^ f + 1 / 2\<rfloor> f)"

fun parseFloat :: "decimal \<Rightarrow> rat" where
  "parseFloat (Decimal n f) = fl (of_int n / 10 ^ f)"

section \<open>The rating aggregation (services/supabaseService.js)\<close>

text \<open>
  Rows of \<open>public.stores\<close> as \<open>select('*')\<close> returns them (the column \<open>id\<close> is
  written \<open>id'\<close>), and the rows of \<open>select('store_id, rating')\<close> on \<open>public.ratings\<close>.
\<close>

record store =
  id' :: int
  name :: string
  email :: string
  address :: string
  owner_id :: "string option"
  created_at :: string

record rated_store = store +
  averageRating :: rat
  totalRatings :: nat

record rating_row =
  store_id :: int
  rating :: int

text \<open>
  The arrow function mapped over the stores: \<open>{ ...store, averageRating, totalRatings }\<close>
  is the store record extended by the two derived fields.
\<close>

definition rateStore :: "rating_row list \<Rightarrow> store \<Rightarrow> rated_store" where
  "rateStore ratings store =
     (let storeRatings = filter (\<lambda>r. store_id r = id' store) ratings;
          totalRatings = length storeRatings
      in if totalRatings = 0 then store.extend store (rated_store.fields 0 0)
         else
           let sum = foldl (\<lambda>acc r. js_add acc (of_int (rating r))) 0 storeRatings;
               averageRating = toFixed (js_div sum (of_nat totalRatings)) 1
           in store.extend store (rated_store.fields (parseFloat averageRating) totalRatings))"

definition calculateStoreRatings :: "store list \<Rightarrow> rating_row list \<Rightarrow> rated_store list" where
  "calculateStoreRatings stores ratings = map (rateStore ratings) stores"

text \<open>
  The words of the specification: the arithmetic mean of a list of scores, and that mean
  rounded to one decimal place (a half rounds up, the convention of \<open>toFixed\<close>), as the
  numeral of one fractional digit.
\<close>

definition mean :: "int list \<Rightarrow> rat" where
  "mean xs = of_int (sum_list xs) / of_nat (length xs)"

definition mean_rounded1 :: "int list \<Rightarrow> decimal" where
  "mean_rounded1 xs = Decimal \<lfloor>mean xs * 10 + 1 / 2\<rfloor> 1"

definition scores_for :: "store \<Rightarrow> rating_row list \<Rightarrow> int list" where
  "scores_for s ratings = map rating (filter (\<lambda>r. store_id r = id' s) ratings)"

text \<open>
  The average of a list of scores as the aggregation arrives at it when its Number sum
  is exact: 0 for no scores; otherwise the quotient of sum and count is rounded to a
  Number, printed with one fractional digit and read back.
\<close>

definition avg_of :: "int list \<Rightarrow> rat" where
  "avg_of xs = (if xs = [] then 0 else parseFloat (Decimal \<lfloor>fl (mean xs) * 10 + 1 / 2\<rfloor> 1))"

text \<open>
  What the persistence service hands to the aggregation: every score satisfies the
  \<open>CHECK (rating >= 1 AND rating <= 5)\<close> of the ratings table, and a JavaScript array
  holds fewer than 2^32 elements.
\<close>

definition ratings_ok :: "rating_row list \<Rightarrow> bool" where
  "ratings_ok ratings =
     (list_all (\<lambda>r. 1 \<le> rating r \<and> rating r \<le> 5) ratings \<and> length ratings < 2 ^ 32)"

section \<open>The ratings table and its upsert\<close>

text \<open>
  A row of \<open>public.ratings\<close>: the two selected columns, the generated key (column \<open>id\<close>)
  and the rater. The timestamps are left out; no operation here reads them.
\<close>

record ratings_record = rating_row +
  rating_id :: int
  user_id :: string

record ratings_table =
  records :: "ratings_record list"
  next_id :: int

datatype service_error = NotFound | ValidationError | InvalidText | ServiceFailure string

text \<open>\<open>UNIQUE (user_id, store_id)\<close>: no two rows of the same rater for the same store.\<close>

definition unique_user_store :: "ratings_record list \<Rightarrow> bool" where
  "unique_user_store rs = distinct (map (\<lambda>r. (user_id r, store_id r)) rs)"

text \<open>The declared constraints of the ratings table: the unique pair and the check.\<close>

definition table_ok :: "ratings_table \<Rightarrow> bool" where
  "table_ok tbl =
     (unique_user_store (records tbl)
      \<and> list_all (\<lambda>r. 1 \<le> rating r \<and> rating r \<le> 5) (records tbl))"

text \<open>
  Modelled from the spec: the persistence service's upsert primitive, which is not part of
  the repository ("upsert keyed on a declared unique constraint, with return of the
  resulting row"; "fails with ValidationError if score is outside [1,5]"), on the ratings
  table as the schema declares it: the row is checked against
  \<open>CHECK (rating >= 1 AND rating <= 5)\<close>, then inserted, or, where a row with the same
  (store_id, user_id) exists, that row's rating is overwritten.
\<close>

definition upsert :: "ratings_table \<Rightarrow> int \<Rightarrow> string \<Rightarrow> int
    \<Rightarrow> service_error + ratings_table \<times> ratings_record" where
  "upsert tbl storeId userId score =
     (if \<not> (1 \<le> score \<and> score \<le> 5) then Inl ValidationError
      else
        case find (\<lambda>r. store_id r = storeId \<and> user_id r = userId) (records tbl) of
          Some old \<Rightarrow>
            Inr (tbl\<lparr>records :=
                   map (\<lambda>r. if store_id r = storeId \<and> user_id r = userId
                             then r\<lparr>rating := score\<rparr> else r) (records tbl)\<rparr>,
                 old\<lparr>rating := score\<rparr>)
        | None \<Rightarrow>
            (let new = \<lparr>store_id = storeId, rating = score,
                        rating_id = next_id tbl, user_id = userId\<rparr>
             in Inr (tbl\<lparr>records := records tbl @ [new], next_id := next_id tbl + 1\<rparr>, new)))"

text \<open>
  \<open>submitRating\<close>: the upsert with \<open>onConflict: 'store_id, user_id'\<close>; an error of the
  service is thrown (\<open>Inl\<close>), otherwise the resulting row is returned.
\<close>

definition submitRating :: "ratings_table \<Rightarrow> int \<Rightarrow> string \<Rightarrow> int
    \<Rightarrow> service_error + ratings_table \<times> ratings_record" where
  "submitRating tbl storeId userId rating' =
     (case upsert tbl storeId userId rating' of
        Inl error \<Rightarrow> Inl error
      | Inr data \<Rightarrow> Inr data)"

definition select_ratings :: "ratings_table \<Rightarrow> rating_row list" where
  "select_ratings tbl = map rating_row.truncate (records tbl)"

section \<open>Profiles and the sign-up trigger (schema)\<close>

text \<open>\<open>CREATE TYPE public.user_role AS ENUM ('admin', 'user', 'store_owner')\<close>.\<close>

datatype user_role = Admin | User | Store_owner

fun role_text :: "user_role \<Rightarrow> string" where
  "role_text Admin = ''admin''"
| "role_text User = ''user''"
| "role_text Store_owner = ''store_owner''"

text \<open>A JavaScript object or a JSON document with string values: a map from keys.\<close>

type_synonym js_object = "string \<rightharpoonup> string"

text \<open>A row of \<open>public.profiles\<close> (columns id, name, address, role).\<close>

record profile =
  p_id :: string
  p_name :: string
  p_address :: string
  p_role :: user_role

record auth_users_row =
  u_id :: string
  u_email :: "string option"
  raw_user_meta_data :: js_object

text \<open>
  The cast \<open>(text)::public.user_role\<close>: NULL stays NULL, a label of the enum is its
  value, any other text is an error.
\<close>

definition cast_user_role :: "string option \<Rightarrow> service_error + user_role option" where
  "cast_user_role t =
     (case t of
        None \<Rightarrow> Inr None
      | Some s \<Rightarrow>
          if s = ''admin'' then Inr (Some Admin)
          else if s = ''user'' then Inr (Some User)
          else if s = ''store_owner'' then Inr (Some Store_owner)
          else Inl InvalidText)"

text \<open>
  \<open>INSERT INTO public.profiles (id, name, address, role)\<close>: the primary key is new, the
  three columns are NOT NULL, and the texts fit \<open>VARCHAR(60)\<close> and \<open>VARCHAR(400)\<close>;
  \<open>min_name\<close> is the lower bound of the second migration's
  \<open>CHECK (char_length(name) >= 20)\<close>, 0 for the first.
\<close>

definition insert_profile :: "nat \<Rightarrow> profile list \<Rightarrow> string \<Rightarrow> string option \<Rightarrow> string option
    \<Rightarrow> user_role option \<Rightarrow> service_error + profile" where
  "insert_profile min_name profiles i n a r =
     (case (n, a, r) of
        (Some n', Some a', Some r') \<Rightarrow>
          if i \<in> set (map p_id profiles) \<or> length n' < min_name \<or> 60 < length n'
             \<or> 400 < length a'
          then Inl ValidationError
          else Inr \<lparr>p_id = i, p_name = n', p_address = a', p_role = r'\<rparr>
      | _ \<Rightarrow> Inl ValidationError)"

text \<open>
  The trigger function \<open>handle_new_user\<close> of the first migration, and the one of the
  second, which falls back to \<open>'user'\<close> when the metadata has no role.
\<close>

definition handle_new_user :: "profile list \<Rightarrow> auth_users_row \<Rightarrow> service_error + profile" where
  "handle_new_user profiles new =
     (case cast_user_role (raw_user_meta_data new ''role'') of
        Inl e \<Rightarrow> Inl e
      | Inr r \<Rightarrow>
          insert_profile 0 profiles (u_id new) (raw_user_meta_data new ''name'')
            (raw_user_meta_data new ''address'') r)"

definition handle_new_user_coalesce :: "profile list \<Rightarrow> auth_users_row \<Rightarrow> service_error + profile" where
  "handle_new_user_coalesce profiles new =
     (case cast_user_role (raw_user_meta_data new ''role'') of
        Inl e \<Rightarrow> Inl e
      | Inr r \<Rightarrow>
          insert_profile 20 profiles (u_id new) (raw_user_meta_data new ''name'')
            (raw_user_meta_data new ''address'')
            (case r of None \<Rightarrow> Some User | Some r' \<Rightarrow> Some r'))"

section \<open>The authentication service\<close>

text \<open>
  What a call of the client library comes back with: it resolves to a value or it
  rejects. The service's answers carry \<open>{ error }\<close>, null on success.
\<close>

datatype 'a js = Returns 'a | Throws string

record auth_error =
  message :: string

type_synonym auth_response = "auth_error option"

record signup_request =
  req_email :: "string option"
  req_password :: "string option"
  req_data :: js_object

record backend =
  users :: "auth_users_row list"
  profiles :: "profile list"

text \<open>
  Modelled from the spec: the authentication subsystem's sign-up, which is not part of
  the repository ("a server-side trigger that, on identity creation, synchronously
  materializes a profile row from signup metadata"). The service may refuse the request
  (\<open>refuse\<close>: a taken address, a weak password); otherwise it inserts the identity, with
  the request's \<open>options.data\<close> as \<open>raw_user_meta_data\<close> and a key of its own choice
  (\<open>fresh\<close>), and the trigger \<open>on_auth_user_created\<close> runs \<open>trg\<close> in the same
  transaction: when the trigger fails nothing is stored.
\<close>

definition auth_signUp ::
  "(signup_request \<Rightarrow> backend \<Rightarrow> auth_error option) \<Rightarrow> (backend \<Rightarrow> string)
    \<Rightarrow> (profile list \<Rightarrow> auth_users_row \<Rightarrow> service_error + profile)
    \<Rightarrow> signup_request \<Rightarrow> backend \<Rightarrow> auth_response js \<times> backend" where
  "auth_signUp refuse fresh trg req db =
     (case refuse req db of
        Some e \<Rightarrow> (Returns (Some e), db)
      | None \<Rightarrow>
          (let new = \<lparr>u_id = fresh db, u_email = req_email req,
                      raw_user_meta_data = req_data req\<rparr>
           in case trg (profiles db) new of
                Inl e \<Rightarrow> (Returns (Some \<lparr>message = ''Database error saving new user''\<rparr>), db)
              | Inr p \<Rightarrow>
                  (Returns None,
                   db\<lparr>users := users db @ [new], profiles := profiles db @ [p]\<rparr>)))"

section \<open>The session context (AuthContext)\<close>

record op_result =
  success :: bool
  error :: "string option"

text \<open>
  The four operations. Each awaits one call of the service (a parameter, passing the
  service's state) and turns its answer into a result; a call that rejects is not caught.
\<close>

definition result_of :: "auth_response js \<Rightarrow> op_result js" where
  "result_of r =
     (case r of
        Throws x \<Rightarrow> Throws x
      | Returns None \<Rightarrow> Returns \<lparr>success = True, error = None\<rparr>
      | Returns (Some e) \<Rightarrow> Returns \<lparr>success = False, error = Some (message e)\<rparr>)"

definition login ::
  "(string option \<times> string option \<Rightarrow> 'st \<Rightarrow> auth_response js \<times> 'st)
    \<Rightarrow> string option \<Rightarrow> string option \<Rightarrow> 'st \<Rightarrow> op_result js \<times> 'st" where
  "login signInWithPassword email' password st =
     (case signInWithPassword (email', password) st of (r, st') \<Rightarrow> (result_of r, st'))"

definition register ::
  "(signup_request \<Rightarrow> 'st \<Rightarrow> auth_response js \<times> 'st)
    \<Rightarrow> js_object \<Rightarrow> 'st \<Rightarrow> op_result js \<times> 'st" where
  "register signUp userData st =
     (case signUp \<lparr>req_email = userData ''email'', req_password = userData ''password'',
                   req_data = (Map.empty(''name'' := userData ''name'',
                                         ''address'' := userData ''address''))
                              (''role'' \<mapsto> ''user'')\<rparr> st
      of (r, st') \<Rightarrow> (result_of r, st'))"

definition updatePassword ::
  "(string option \<Rightarrow> 'st \<Rightarrow> auth_response js \<times> 'st)
    \<Rightarrow> string option \<Rightarrow> string option \<Rightarrow> 'st \<Rightarrow> op_result js \<times> 'st" where
  "updatePassword updateUser currentPassword newPassword st =
     (case updateUser newPassword st of (r, st') \<Rightarrow> (result_of r, st'))"

definition createUser ::
  "(signup_request \<Rightarrow> 'st \<Rightarrow> auth_response js \<times> 'st)
    \<Rightarrow> js_object \<Rightarrow> 'st \<Rightarrow> op_result js \<times> 'st" where
  "createUser signUp userData st =
     (case signUp \<lparr>req_email = userData ''email'', req_password = userData ''password'',
                   req_data = Map.empty(''name'' := userData ''name'',
                                        ''address'' := userData ''address'',
                                        ''role'' := userData ''role'')\<rparr> st
      of (r, st') \<Rightarrow> (result_of r, st'))"

text \<open>
  \<open>getProfile\<close>: \<open>select('*').eq('id', userId).single()\<close> answers with an error unless
  exactly one row matches; the error is thrown, the row is returned as an object.
\<close>

definition profile_object :: "profile \<Rightarrow> js_object" where
  "profile_object p =
     [''id'' \<mapsto> p_id p, ''name'' \<mapsto> p_name p, ''address'' \<mapsto> p_address p,
      ''role'' \<mapsto> role_text (p_role p)]"

definition getProfile :: "profile list \<Rightarrow> string \<Rightarrow> service_error + js_object option" where
  "getProfile ps userId =
     (case filter (\<lambda>p. p_id p = userId) ps of
        [p] \<Rightarrow> Inr (Some (profile_object p))
      | _ \<Rightarrow> Inl NotFound)"

text \<open>
  The state of the provider, \<open>useState(null)\<close> and \<open>useState(true)\<close>, and the
  callback of \<open>onAuthStateChange\<close> as the list of its effects in program order, given
  what \<open>await getProfile(session.user.id)\<close> comes back with (\<open>Inl\<close>: it threw).
\<close>

record auth_state =
  user :: "js_object option"
  loading :: bool

definition initial_state :: auth_state where
  "initial_state = \<lparr>user = None, loading = True\<rparr>"

datatype action =
  SetLoading bool | SetUser "js_object option" | AwaitGetProfile | AwaitSignOut | Console

definition onAuthStateChange ::
  "(service_error + js_object option) \<Rightarrow> js_object option \<Rightarrow> action list" where
  "onAuthStateChange fetched session_user =
     SetLoading True #
     (case session_user of
        Some su \<Rightarrow>
          AwaitGetProfile #
          (case fetched of
             Inr (Some profile) \<Rightarrow> [SetUser (Some (su ++ profile))]
           | Inr None \<Rightarrow> [Console, AwaitSignOut, SetUser None]
           | Inl e \<Rightarrow> [Console, AwaitSignOut, SetUser None])
      | None \<Rightarrow> [SetUser None])
     @ [SetLoading False]"

definition logout :: "action list" where
  "logout = [AwaitSignOut, SetUser None]"

text \<open>
  The state after each effect, in order. An await leaves the state as it is: the callback
  is suspended there, and the provider's children are rendered with that state.
\<close>

fun step :: "action \<Rightarrow> auth_state \<Rightarrow> auth_state" where
  "step (SetLoading b) s = s\<lparr>loading := b\<rparr>"
| "step (SetUser u) s = s\<lparr>user := u\<rparr>"
| "step AwaitGetProfile s = s"
| "step AwaitSignOut s = s"
| "step Console s = s"

fun exec :: "action list \<Rightarrow> auth_state \<Rightarrow> auth_state list" where
  "exec [] s = []"
| "exec (a # as) s = step a s # exec as (step a s)"

definition final :: "action list \<Rightarrow> auth_state \<Rightarrow> auth_state" where
  "final as s = foldl (\<lambda>s a. step a s) s as"

text \<open>
  The states the provider can be in: the initial one, and every state during and after
  a run of the callback (on an event without a session, or with one, the profile fetch
  failing or answering from some profiles table) or of \<open>logout\<close>.
\<close>

inductive reachable :: "auth_state \<Rightarrow> bool" where
  init: "reachable initial_state"
| signed_out: "reachable s \<Longrightarrow> s' \<in> set (exec (onAuthStateChange fetched None) s)
    \<Longrightarrow> reachable s'"
| fetch_failed: "reachable s \<Longrightarrow> s' \<in> set (exec (onAuthStateChange (Inl e) (Some su)) s)
    \<Longrightarrow> reachable s'"
| fetched: "reachable s
    \<Longrightarrow> s' \<in> set (exec (onAuthStateChange (getProfile ps uid) (Some su)) s)
    \<Longrightarrow> reachable s'"
| logged_out: "reachable s \<Longrightarrow> s' \<in> set (exec logout s) \<Longrightarrow> reachable s'"

section \<open>The role-based router (App)\<close>

datatype element =
  LoadingSpinner | AdminDashboard | UserDashboard | StoreOwnerDashboard
  | Login | Register | Navigate string | NoMatch

definition getDashboardPath :: "string option \<Rightarrow> string" where
  "getDashboardPath role =
     (if role = Some ''admin'' then ''/admin''
      else if role = Some ''user'' then ''/user''
      else if role = Some ''store_owner'' then ''/store-owner''
      else ''/login'')"

text \<open>
  The children of \<open>Routes\<close> in the order written, a conditional route being present only
  when its condition holds.
\<close>

definition routes :: "js_object option \<Rightarrow> (string \<times> element) list" where
  "routes u =
     (case u of
        Some user' \<Rightarrow>
          (if user' ''role'' = Some ''admin'' then [(''/admin'', AdminDashboard)] else [])
          @ (if user' ''role'' = Some ''user'' then [(''/user'', UserDashboard)] else [])
          @ (if user' ''role'' = Some ''store_owner''
             then [(''/store-owner'', StoreOwnerDashboard)] else [])
          @ [(''/'', Navigate (getDashboardPath (user' ''role''))),
             (''*'', Navigate (getDashboardPath (user' ''role'')))]
      | None \<Rightarrow>
          [(''/login'', Login), (''/register'', Register), (''*'', Navigate ''/login'')])"

text \<open>
  \<open>AppRouter\<close> at a requested location. Which pattern matches which location is the
  router library's business (\<open>matchPath\<close>, a parameter), except that \<open>*\<close> matches
  every location. The library renders the best-ranked match: a static path ranks above
  \<open>/\<close>, \<open>*\<close> ranks last, and equal ranks keep the order written; the routes here are
  written in that order, so the first match is the one rendered.
\<close>

definition AppRouter :: "(string \<Rightarrow> string \<Rightarrow> bool) \<Rightarrow> auth_state \<Rightarrow> string \<Rightarrow> element" where
  "AppRouter matchPath ctx location =
     (if loading ctx then LoadingSpinner
      else
        case find (\<lambda>(pattern, el). pattern = ''*'' \<or> matchPath pattern location)
               (routes (user ctx)) of
          Some (pattern, el) \<Rightarrow> el
        | None \<Rightarrow> NoMatch)"

section \<open>Rounding to a Number\<close>

text \<open>
  The facts about \<open>fl\<close> the aggregation needs: it never crosses an integer (so it keeps
  every integer below 2^53 and every bound 1 and 5), it moves a positive value by at most
  half a unit in the last place, and so the numeral that \<open>toFixed(1)\<close> prints for the
  rounded quotient of two integers (the count below 2^32) is within 0.05 of the exact
  quotient.
\<close>

lemma rhe_of_int: "rhe (of_int k) = k"
  by (simp add: rhe_def)

lemma rhe_err: "\<bar>of_int (rhe y) - y\<bar> \<le> 1 / 2"
proof -
  have "of_int \<lfloor>y\<rfloor> \<le> y" "y < of_int \<lfloor>y\<rfloor> + 1" by linarith+
  then show ?thesis by (auto simp: rhe_def Let_def)
qed

lemma rhe_le: assumes "y \<le> of_int k" shows "rhe y \<le> k"
proof -
  have f: "\<lfloor>y\<rfloor> \<le> k" using assms by (simp add: floor_le_iff)
  show ?thesis
  proof (cases "\<lfloor>y\<rfloor> = k")
    case True
    then have "y = of_int k" using assms by (metis of_int_floor_le order_antisym)
    then show ?thesis by (simp add: rhe_of_int)
  next
    case False
    then have "\<lfloor>y\<rfloor> + 1 \<le> k" using f by simp
    then show ?thesis by (auto simp: rhe_def Let_def)
  qed
qed

lemma rhe_ge: assumes "of_int k \<le> y" shows "k \<le> rhe y"
proof -
  have "k \<le> \<lfloor>y\<rfloor>" using assms by (simp add: le_floor_iff)
  then show ?thesis by (auto simp: rhe_def Let_def)
qed

lemma ilog2_bounds:
  assumes "0 < x"
  shows "2 powi ilog2 x \<le> x \<and> x < 2 powi (ilog2 x + 1)"
proof -
  obtain p q where pq: "quotient_of x = (p, q)" by (cases "quotient_of x")
  have q: "0 < q" using pq by (rule quotient_of_denom_pos)
  have x: "x = of_int p / of_int q" using pq by (rule quotient_of_div)
  have p: "0 < p" using assms q x by (simp add: zero_less_divide_iff)
  define d where "d = bitlen p - bitlen q"
  have bp: "2 ^ nat (bitlen p - 1) \<le> p" "p < 2 ^ nat (bitlen p)"
    using bitlen_bounds [OF p] by auto
  have bq: "2 ^ nat (bitlen q - 1) \<le> q" "q < 2 ^ nat (bitlen q)"
    using bitlen_bounds [OF q] by auto
  have bp1: "1 \<le> bitlen p" and bq1: "1 \<le> bitlen q"
    using p q by (auto simp: bitlen_alt_def)
  have P1: "(2::rat) powi (bitlen p - 1) \<le> of_int p"
  proof -
    have "(of_int (2 ^ nat (bitlen p - 1)) :: rat) \<le> of_int p" using bp(1) by (simp only: of_int_le_iff)
    then show ?thesis using bp1 by (simp add: power_int_def)
  qed
  have P2: "of_int p < (2::rat) powi (bitlen p)"
  proof -
    have "(of_int p :: rat) < of_int (2 ^ nat (bitlen p))" using bp(2) by (simp only: of_int_less_iff)
    then show ?thesis using bp1 by (simp add: power_int_def)
  qed
  have Q1: "(2::rat) powi (bitlen q - 1) \<le> of_int q"
  proof -
    have "(of_int (2 ^ nat (bitlen q - 1)) :: rat) \<le> of_int q" using bq(1) by (simp only: of_int_le_iff)
    then show ?thesis using bq1 by (simp add: power_int_def)
  qed
  have Q2: "of_int q < (2::rat) powi (bitlen q)"
  proof -
    have "(of_int q :: rat) < of_int (2 ^ nat (bitlen q))" using bq(2) by (simp only: of_int_less_iff)
    then show ?thesis using bq1 by (simp add: power_int_def)
  qed
  have qpos: "(0::rat) < of_int q" using q by simp
  have lo: "(2::rat) powi (d - 1) \<le> x"
  proof -
    have "(2::rat) powi (d - 1) * of_int q \<le> 2 powi (d - 1) * 2 powi (bitlen q)"
      using Q2 by (intro mult_left_mono) auto
    also have "\<dots> = 2 powi (bitlen p - 1)"
      by (simp add: d_def power_int_add [symmetric])
    also have "\<dots> \<le> of_int p" by (rule P1)
    finally show ?thesis using qpos by (simp add: x pos_le_divide_eq)
  qed
  have hi: "x < (2::rat) powi (d + 1)"
  proof -
    have "of_int p < (2::rat) powi (bitlen p)" by (rule P2)
    also have "\<dots> = 2 powi (d + 1) * 2 powi (bitlen q - 1)"
      by (simp add: d_def power_int_add [symmetric])
    also have "\<dots> \<le> 2 powi (d + 1) * of_int q"
      using Q1 by (intro mult_left_mono) auto
    finally show ?thesis using qpos by (simp add: x pos_divide_less_eq)
  qed
  show ?thesis
  proof (cases "2 powi d \<le> x")
    case True
    then have "ilog2 x = d" by (simp add: ilog2_def pq d_def Let_def)
    then show ?thesis using True hi by simp
  next
    case False
    then have "ilog2 x = d - 1" by (simp add: ilog2_def pq d_def Let_def)
    then show ?thesis using False lo by simp
  qed
qed

lemma fl_pos:
  "0 < x \<Longrightarrow> fl x = of_int (rhe (x * 2 powi (52 - ilog2 x))) * 2 powi (ilog2 x - 52)"
  by (simp add: fl_def Let_def)

lemma ilog2_lt:
  assumes "0 < x" "x < 2 powi n" shows "ilog2 x < n"
proof (rule ccontr)
  assume "\<not> ilog2 x < n"
  then have "n \<le> ilog2 x" by simp
  then have "(2::rat) powi n \<le> 2 powi ilog2 x" by (intro power_int_increasing) auto
  also have "\<dots> \<le> x" using ilog2_bounds [OF assms(1)] by simp
  finally show False using assms(2) by simp
qed

lemma scale_int:
  assumes "k \<le> 52"
  shows "of_int B * (2::rat) powi (52 - k) = of_int (B * 2 ^ nat (52 - k))"
  using assms by (simp add: power_int_def)

lemma powi_cancel: "(2::rat) powi (52 - k) * 2 powi (k - 52) = 1"
  by (simp add: power_int_add [symmetric])

lemma fl_le_int:
  assumes "0 < x" "x < 2 ^ 53" "x \<le> of_int B"
  shows "fl x \<le> of_int B"
proof -
  define k where "k = ilog2 x"
  have "x < 2 powi 53" using assms(2) by simp
  then have k: "k \<le> 52" using ilog2_lt [OF assms(1), of 53] by (simp add: k_def)
  have "x * 2 powi (52 - k) \<le> of_int B * 2 powi (52 - k)"
    using assms(3) by (intro mult_right_mono) auto
  then have "x * 2 powi (52 - k) \<le> of_int (B * 2 ^ nat (52 - k))"
    by (simp only: scale_int [OF k])
  then have "rhe (x * 2 powi (52 - k)) \<le> B * 2 ^ nat (52 - k)" by (rule rhe_le)
  then have "(of_int (rhe (x * 2 powi (52 - k))) :: rat) \<le> of_int (B * 2 ^ nat (52 - k))"
    by (simp only: of_int_le_iff)
  then have "of_int (rhe (x * 2 powi (52 - k))) * 2 powi (k - 52)
      \<le> (of_int (B * 2 ^ nat (52 - k)) :: rat) * 2 powi (k - 52)"
    by (intro mult_right_mono) auto
  also have "\<dots> = of_int B * (2 powi (52 - k) * 2 powi (k - 52))"
    by (simp only: scale_int [OF k, symmetric] mult.assoc)
  also have "\<dots> = of_int B" by (simp only: powi_cancel mult_1_right)
  finally show ?thesis by (simp add: fl_pos [OF assms(1)] k_def)
qed

lemma fl_ge_int:
  assumes "0 < x" "x < 2 ^ 53" "of_int B \<le> x"
  shows "of_int B \<le> fl x"
proof -
  define k where "k = ilog2 x"
  have "x < 2 powi 53" using assms(2) by simp
  then have k: "k \<le> 52" using ilog2_lt [OF assms(1), of 53] by (simp add: k_def)
  have "of_int B * 2 powi (52 - k) \<le> x * 2 powi (52 - k)"
    using assms(3) by (intro mult_right_mono) auto
  then have "of_int (B * 2 ^ nat (52 - k)) \<le> x * 2 powi (52 - k)"
    by (simp only: scale_int [OF k])
  then have "B * 2 ^ nat (52 - k) \<le> rhe (x * 2 powi (52 - k))" by (rule rhe_ge)
  then have "(of_int (B * 2 ^ nat (52 - k)) :: rat) \<le> of_int (rhe (x * 2 powi (52 - k)))"
    by (simp only: of_int_le_iff)
  then have le: "(of_int (B * 2 ^ nat (52 - k)) :: rat) * 2 powi (k - 52)
      \<le> of_int (rhe (x * 2 powi (52 - k))) * 2 powi (k - 52)"
    by (intro mult_right_mono) auto
  have "of_int B = of_int B * ((2::rat) powi (52 - k) * 2 powi (k - 52))"
    by (simp only: powi_cancel mult_1_right)
  also have "\<dots> = (of_int (B * 2 ^ nat (52 - k)) :: rat) * 2 powi (k - 52)"
    by (simp only: scale_int [OF k, symmetric] mult.assoc)
  also have "\<dots> \<le> of_int (rhe (x * 2 powi (52 - k))) * 2 powi (k - 52)" by (rule le)
  also have "\<dots> = fl x" by (simp add: fl_pos [OF assms(1)] k_def)
  finally show ?thesis .
qed

lemma fl_of_int:
  assumes "0 < n" "n < 2 ^ 53"
  shows "fl (of_int n) = of_int n"
proof -
  have p: "(0::rat) < of_int n" using assms(1) by simp
  have "(of_int n :: rat) < of_int (2 ^ 53)" using assms(2) by (simp only: of_int_less_iff)
  then have b: "(of_int n :: rat) < 2 ^ 53" by simp
  show ?thesis using fl_le_int [OF p b, of n] fl_ge_int [OF p b, of n] by simp
qed

lemma fl_err:
  assumes "0 < x"
  shows "\<bar>fl x - x\<bar> \<le> 2 powi (ilog2 x - 53)"
proof -
  define k where "k = ilog2 x"
  define y where "y = x * 2 powi (52 - k)"
  have x: "x = y * 2 powi (k - 52)"
    by (simp add: y_def mult.assoc powi_cancel)
  have "fl x = of_int (rhe y) * 2 powi (k - 52)"
    by (simp add: fl_pos [OF assms] k_def y_def)
  then have "fl x - x = of_int (rhe y) * 2 powi (k - 52) - y * 2 powi (k - 52)"
    using x by simp
  then have "fl x - x = (of_int (rhe y) - y) * 2 powi (k - 52)"
    by (simp add: algebra_simps)
  then have "\<bar>fl x - x\<bar> = \<bar>of_int (rhe y) - y\<bar> * 2 powi (k - 52)"
    by (simp add: abs_mult)
  also have "\<dots> \<le> 1 / 2 * 2 powi (k - 52)"
    using rhe_err [of y] by (intro mult_right_mono) auto
  also have "\<dots> = 2 powi (k - 53)"
  proof -
    have "(2::rat) powi (k - 52) = 2 powi (k - 53 + 1)" by simp
    also have "\<dots> = 2 powi (k - 53) * 2" by (subst power_int_add) auto
    finally show ?thesis by simp
  qed
  finally show ?thesis by (simp add: k_def)
qed

lemma fl_err_le8:
  assumes "0 < x" "x < 8"
  shows "\<bar>fl x - x\<bar> \<le> 1 / 2 ^ 50"
proof -
  have "x < 2 powi 3" using assms(2) by simp
  then have "ilog2 x < 3" by (rule ilog2_lt [OF assms(1)])
  then have "ilog2 x - 53 \<le> - 50" by simp
  then have "(2::rat) powi (ilog2 x - 53) \<le> 2 powi (- 50)"
    by (intro power_int_increasing) auto
  also have "\<dots> = 1 / 2 ^ 50" by (simp add: power_int_minus inverse_eq_divide)
  finally show ?thesis using fl_err [OF assms(1)] by linarith
qed

lemma nearest_tenth:
  fixes s c :: int
  assumes c: "0 < c" "c < 2 ^ 32" and s: "c \<le> s" "s \<le> 5 * c"
  shows "\<bar>of_int \<lfloor>fl (of_int s / of_int c) * 10 + 1 / 2\<rfloor> / 10 - (of_int s / of_int c :: rat)\<bar> \<le> 1 / 20"
proof -
  define q :: rat where "q = of_int s / of_int c"
  define x where "x = fl q"
  define n where "n = \<lfloor>x * 10 + 1 / 2\<rfloor>"
  define C :: rat where "C = of_int c"
  have Cpos: "0 < C" using c(1) by (simp add: C_def)
  have "(of_int c :: rat) < of_int (2 ^ 32)" using c(2) by (simp only: of_int_less_iff)
  then have Cub: "C < 2 ^ 32" by (simp add: C_def)
  have qC: "q * C = of_int s" using Cpos by (simp add: q_def C_def)
  have "(of_int c :: rat) \<le> of_int s" using s(1) by (simp only: of_int_le_iff)
  then have q1: "1 \<le> q" using Cpos by (simp add: q_def C_def pos_le_divide_eq)
  have "(of_int s :: rat) \<le> of_int (5 * c)" using s(2) by (simp only: of_int_le_iff)
  then have q5: "q \<le> 5" using Cpos by (simp add: q_def C_def pos_divide_le_eq)
  have err: "\<bar>x - q\<bar> \<le> 1 / 2 ^ 50"
    unfolding x_def using q1 q5 by (intro fl_err_le8) auto
  have n1: "of_int n \<le> x * 10 + 1 / 2" and n2: "x * 10 + 1 / 2 < of_int n + 1"
    unfolding n_def by linarith+
  define e :: rat where "e = 1 / 2 ^ 50"
  have gap: "e * (20 * C) < 1"
  proof -
    have "20 * C < 20 * 2 ^ 32" using Cub by simp
    also have "\<dots> < (2::rat) ^ 50" by simp
    finally show ?thesis by (simp add: e_def)
  qed
  have xu: "x < (2 * of_int n + 1) / 20" using n2 by (simp add: field_simps)
  have xl: "(2 * of_int n - 1) / 20 \<le> x" using n1 by (simp add: field_simps)
  have "\<bar>x - q\<bar> \<le> e" using err by (simp only: e_def)
  then have err': "x - q \<le> e" "q - x \<le> e" by linarith+
  have up: "20 * s \<le> (2 * n + 1) * c"
  proof (rule ccontr)
    assume "\<not> 20 * s \<le> (2 * n + 1) * c"
    then have "(2 * n + 1) * c + 1 \<le> 20 * s" by simp
    then have "(of_int ((2 * n + 1) * c + 1) :: rat) \<le> of_int (20 * s)"
      by (simp only: of_int_le_iff)
    then have A: "(2 * of_int n + 1) * C + 1 \<le> 20 * (q * C)"
      by (simp add: C_def qC [unfolded C_def])
    have "q < (2 * of_int n + 1) / 20 + e" using xu err'(2) by linarith
    then have "q * (20 * C) < ((2 * of_int n + 1) / 20 + e) * (20 * C)"
      using Cpos by (intro mult_strict_right_mono) auto
    also have "\<dots> = (2 * of_int n + 1) * C + e * (20 * C)"
      by (simp add: algebra_simps)
    finally show False using A gap by (simp add: algebra_simps)
  qed
  have lo: "(2 * n - 1) * c \<le> 20 * s"
  proof (rule ccontr)
    assume "\<not> (2 * n - 1) * c \<le> 20 * s"
    then have "20 * s + 1 \<le> (2 * n - 1) * c" by simp
    then have "(of_int (20 * s + 1) :: rat) \<le> of_int ((2 * n - 1) * c)"
      by (simp only: of_int_le_iff)
    then have A: "20 * (q * C) + 1 \<le> (2 * of_int n - 1) * C"
      by (simp add: C_def qC [unfolded C_def])
    have "(2 * of_int n - 1) / 20 - e \<le> q" using xl err'(1) by linarith
    then have "((2 * of_int n - 1) / 20 - e) * (20 * C) \<le> q * (20 * C)"
      using Cpos by (intro mult_right_mono) auto
    moreover have "((2 * of_int n - 1) / 20 - e) * (20 * C) = (2 * of_int n - 1) * C - e * (20 * C)"
      by (simp add: field_simps)
    ultimately show False using A gap by (simp add: algebra_simps)
  qed
  have "(of_int (20 * s) :: rat) \<le> of_int ((2 * n + 1) * c)" using up by (simp only: of_int_le_iff)
  then have "20 * (q * C) \<le> (2 * of_int n + 1) * C" by (simp add: C_def qC [unfolded C_def])
  then have "(20 * q) * C \<le> (2 * of_int n + 1) * C" by (simp add: mult.assoc)
  then have U: "20 * q \<le> 2 * of_int n + 1" using Cpos by (simp add: mult_le_cancel_right)
  have "(of_int ((2 * n - 1) * c) :: rat) \<le> of_int (20 * s)" using lo by (simp only: of_int_le_iff)
  then have "(2 * of_int n - 1) * C \<le> 20 * (q * C)" by (simp add: C_def qC [unfolded C_def])
  then have "(2 * of_int n - 1) * C \<le> (20 * q) * C" by (simp add: mult.assoc)
  then have L: "2 * of_int n - 1 \<le> 20 * q" using Cpos by (simp add: mult_le_cancel_right)
  have "of_int n / 10 - q \<le> 1 / 20" "- (1 / 20) \<le> of_int n / 10 - q" using U L by linarith+
  then have "\<bar>of_int n / 10 - q\<bar> \<le> 1 / 20" by (intro abs_leI) linarith+
  then show ?thesis by (simp add: n_def x_def q_def)
qed

section \<open>The aggregation: sums, means and the result of one store\<close>

text \<open>
  For ratings the service can hand over, the Number sum of a store's scores is their
  exact sum, and the record computed for a store is determined by the multiset of its
  scores.
\<close>

lemma scores_bounds:
  assumes "list_all (\<lambda>r. 1 \<le> rating r \<and> rating r \<le> 5) rs"
  shows "int (length rs) \<le> sum_list (map rating rs) \<and> sum_list (map rating rs) \<le> 5 * int (length rs)"
  using assms by (induction rs) auto

lemma sum_exact:
  assumes "list_all (\<lambda>r. 1 \<le> rating r \<and> rating r \<le> 5) rs" "0 \<le> a"
    and "a + 5 * int (length rs) < 2 ^ 53"
  shows "foldl (\<lambda>acc r. js_add acc (of_int (rating r))) (of_int a) rs
    = of_int (a + sum_list (map rating rs))"
  using assms
proof (induction rs arbitrary: a)
  case Nil
  then show ?case by simp
next
  case (Cons r rs)
  have r: "1 \<le> rating r" "rating r \<le> 5" using Cons.prems(1) by auto
  have "0 < a + rating r" "a + rating r < 2 ^ 53" using r Cons.prems(2,3) by auto
  then have "fl (of_int (a + rating r)) = of_int (a + rating r)" by (rule fl_of_int)
  then have step: "js_add (of_int a) (of_int (rating r)) = of_int (a + rating r)"
    by (simp add: js_add_def)
  have "foldl (\<lambda>acc r. js_add acc (of_int (rating r))) (of_int (a + rating r)) rs
    = of_int (a + rating r + sum_list (map rating rs))"
    using Cons.prems r by (intro Cons.IH) auto
  then show ?case by (simp add: step add.assoc)
qed

lemma filter_ok:
  assumes "ratings_ok ratings"
  shows "list_all (\<lambda>r. 1 \<le> rating r \<and> rating r \<le> 5) (filter P ratings)"
    and "length (filter P ratings) < 2 ^ 32"
proof -
  show "list_all (\<lambda>r. 1 \<le> rating r \<and> rating r \<le> 5) (filter P ratings)"
    using assms by (auto simp: ratings_ok_def list_all_iff)
  have "length (filter P ratings) \<le> length ratings" by (rule length_filter_le)
  moreover have "length ratings < 2 ^ 32" using assms by (simp add: ratings_ok_def)
  ultimately show "length (filter P ratings) < 2 ^ 32" by (rule le_less_trans)
qed

lemma rateStore_truncate: "store.truncate (rateStore ratings s) = s"
  by (simp add: rateStore_def Let_def store.defs)

lemma rateStore_total: "totalRatings (rateStore ratings s) = length (scores_for s ratings)"
  by (simp add: rateStore_def Let_def scores_for_def store.defs rated_store.defs)

lemma rateStore_none:
  "scores_for s ratings = [] \<Longrightarrow> averageRating (rateStore ratings s) = 0"
  by (simp add: rateStore_def Let_def scores_for_def store.defs rated_store.defs)

lemma mean_bounds:
  assumes "list_all (\<lambda>r. 1 \<le> rating r \<and> rating r \<le> 5) rs" "rs \<noteq> []"
  shows "1 \<le> mean (map rating rs) \<and> mean (map rating rs) \<le> 5"
proof -
  have n: "(0::rat) < of_nat (length rs)" using assms(2) by simp
  have b: "int (length rs) \<le> sum_list (map rating rs)" "sum_list (map rating rs) \<le> 5 * int (length rs)"
    using scores_bounds [OF assms(1)] by auto
  have "(of_int (int (length rs)) :: rat) \<le> of_int (sum_list (map rating rs))"
    using b(1) by (simp only: of_int_le_iff)
  then have 1: "1 \<le> mean (map rating rs)" using n by (simp add: mean_def pos_le_divide_eq)
  have "(of_int (sum_list (map rating rs)) :: rat) \<le> of_int (5 * int (length rs))"
    using b(2) by (simp only: of_int_le_iff)
  then have 2: "mean (map rating rs) \<le> 5" using n by (simp add: mean_def pos_divide_le_eq)
  show ?thesis using 1 2 by simp
qed

lemma fl_range:
  assumes "1 \<le> x" "x \<le> 5"
  shows "1 \<le> fl x \<and> fl x \<le> 5"
proof -
  have p: "0 < x" "x < 2 ^ 53" using assms by auto
  have "of_int 1 \<le> fl x" using assms(1) by (intro fl_ge_int p) simp
  moreover have "fl x \<le> of_int 5" using assms(2) by (intro fl_le_int p) simp
  ultimately show ?thesis by simp
qed

lemma rateStore_average:
  assumes "ratings_ok ratings" "scores_for s ratings \<noteq> []"
  shows "averageRating (rateStore ratings s)
    = parseFloat (Decimal \<lfloor>fl (mean (scores_for s ratings)) * 10 + 1 / 2\<rfloor> 1)"
proof -
  define rs where "rs = filter (\<lambda>r. store_id r = id' s) ratings"
  have sc: "scores_for s ratings = map rating rs" by (simp add: scores_for_def rs_def)
  have ne: "rs \<noteq> []" using assms(2) sc by auto
  have ok: "list_all (\<lambda>r. 1 \<le> rating r \<and> rating r \<le> 5) rs" "length rs < 2 ^ 32"
    unfolding rs_def by (rule filter_ok [OF assms(1)])+
  have "int (length rs) < 2 ^ 32" using ok(2) by (simp add: of_nat_less_numeral_power_cancel_iff)
  then have "0 + 5 * int (length rs) < 2 ^ 53" by simp
  then have "foldl (\<lambda>acc r. js_add acc (of_int (rating r))) (of_int 0) rs
    = of_int (0 + sum_list (map rating rs))"
    by (intro sum_exact ok) simp_all
  then have sum: "foldl (\<lambda>acc r. js_add acc (of_int (rating r))) 0 rs
    = of_int (sum_list (map rating rs))" by simp
  have q: "js_div (of_int (sum_list (map rating rs))) (of_nat (length rs)) = fl (mean (map rating rs))"
    by (simp add: js_div_def mean_def)
  have m: "1 \<le> mean (map rating rs)" "mean (map rating rs) \<le> 5"
    using mean_bounds [OF ok(1) ne] by auto
  have x: "1 \<le> fl (mean (map rating rs))" "fl (mean (map rating rs)) \<le> 5"
    using fl_range [OF m] by auto
  have tf: "toFixed (fl (mean (map rating rs))) 1
    = Decimal \<lfloor>fl (mean (map rating rs)) * 10 + 1 / 2\<rfloor> 1"
    using x by (simp add: toFixed_def)
  have "averageRating (rateStore ratings s)
    = parseFloat (toFixed (js_div (foldl (\<lambda>acc r. js_add acc (of_int (rating r))) 0 rs)
        (of_nat (length rs))) 1)"
    using ne by (simp add: rateStore_def Let_def rs_def [symmetric] store.defs rated_store.defs)
  then show ?thesis by (simp only: sum q tf sc)
qed

lemma rateStore_eq:
  assumes "ratings_ok ratings"
  shows "rateStore ratings s
    = store.extend s (rated_store.fields (avg_of (scores_for s ratings)) (length (scores_for s ratings)))"
proof -
  have "store.truncate (rateStore ratings s) = s" by (rule rateStore_truncate)
  moreover have "totalRatings (rateStore ratings s) = length (scores_for s ratings)"
    by (rule rateStore_total)
  moreover have "averageRating (rateStore ratings s) = avg_of (scores_for s ratings)"
    using rateStore_none [of s ratings] rateStore_average [OF assms, of s]
    by (cases "scores_for s ratings = []") (simp_all add: avg_of_def)
  ultimately show ?thesis
    by (cases "rateStore ratings s") (auto simp: store.defs rated_store.defs)
qed

lemma tenths_near:
  assumes "list_all (\<lambda>r. 1 \<le> rating r \<and> rating r \<le> 5) rs" "length rs < 2 ^ 32" "rs \<noteq> []"
  shows "\<bar>of_int \<lfloor>fl (mean (map rating rs)) * 10 + 1 / 2\<rfloor> / 10 - mean (map rating rs)\<bar> \<le> 1 / 20"
proof -
  have c: "0 < int (length rs)" "int (length rs) < 2 ^ 32"
    using assms(2,3) by (simp_all add: of_nat_less_numeral_power_cancel_iff)
  have "mean (map rating rs) = of_int (sum_list (map rating rs)) / of_int (int (length rs))"
    by (simp add: mean_def)
  then show ?thesis
    using nearest_tenth [OF c, of "sum_list (map rating rs)"] scores_bounds [OF assms(1)]
    by simp
qed

lemma tenths_unique:
  fixes q :: rat
  assumes "\<bar>of_int n / 10 - q\<bar> \<le> 1 / 20" "frac (q * 10) \<noteq> 1 / 2"
  shows "\<lfloor>q * 10 + 1 / 2\<rfloor> = n"
proof -
  have "of_int n / 10 - q \<le> 1 / 20" "q - of_int n / 10 \<le> 1 / 20"
    using assms(1) by linarith+
  then have lo: "of_int n - 1 / 2 \<le> q * 10" and hi: "q * 10 \<le> of_int n + 1 / 2"
    by (simp_all add: field_simps)
  have "q * 10 \<noteq> of_int n + 1 / 2"
  proof
    assume e: "q * 10 = of_int n + 1 / 2"
    then have "\<lfloor>q * 10\<rfloor> = n" by (simp add: floor_unique)
    then have "frac (q * 10) = 1 / 2" using e by (simp add: frac_def)
    then show False using assms(2) by simp
  qed
  then have "q * 10 < of_int n + 1 / 2" using hi by simp
  then show ?thesis using lo by (intro floor_unique) simp_all
qed

lemma tenths_range:
  fixes x :: rat
  assumes "1 \<le> x" "x \<le> 5"
  shows "0 \<le> parseFloat (Decimal \<lfloor>x * 10 + 1 / 2\<rfloor> 1) \<and> parseFloat (Decimal \<lfloor>x * 10 + 1 / 2\<rfloor> 1) \<le> 5"
proof -
  define n where "n = \<lfloor>x * 10 + 1 / 2\<rfloor>"
  have "10 \<le> n" unfolding n_def using assms(1) by (simp add: le_floor_iff)
  moreover have "n \<le> 50" unfolding n_def using assms(2) by (simp add: floor_le_iff)
  ultimately have "(of_int 10 :: rat) \<le> of_int n" "(of_int n :: rat) \<le> of_int 50"
    by (simp_all only: of_int_le_iff)
  then have "(1::rat) \<le> of_int n / 10" "(of_int n :: rat) / 10 \<le> 5" by simp_all
  then have "1 \<le> fl (of_int n / 10) \<and> fl (of_int n / 10) \<le> 5" by (rule fl_range)
  then show ?thesis by (simp add: n_def)
qed

lemma avg_of_range:
  assumes "list_all (\<lambda>r. 1 \<le> rating r \<and> rating r \<le> 5) rs"
  shows "0 \<le> avg_of (map rating rs) \<and> avg_of (map rating rs) \<le> 5"
proof (cases "rs = []")
  case True
  then show ?thesis by (simp add: avg_of_def)
next
  case False
  have m: "1 \<le> mean (map rating rs)" "mean (map rating rs) \<le> 5"
    using mean_bounds [OF assms False] by auto
  have x: "1 \<le> fl (mean (map rating rs))" "fl (mean (map rating rs)) \<le> 5"
    using fl_range [OF m] by auto
  show ?thesis using False tenths_range [OF x] by (simp add: avg_of_def)
qed

lemma calc_nth:
  "i < length stores \<Longrightarrow> calculateStoreRatings stores ratings ! i = rateStore ratings (stores ! i)"
  by (simp add: calculateStoreRatings_def)

lemma scores_for_mset:
  "mset ratings' = mset ratings \<Longrightarrow> mset (scores_for s ratings') = mset (scores_for s ratings)"
  by (metis scores_for_def mset_filter mset_map)

lemma mean_mset:
  assumes "mset xs = mset ys" shows "mean xs = mean ys"
proof -
  have "sum_list xs = sum_list ys" using assms by (metis sum_mset_sum_list)
  moreover have "length xs = length ys" using assms by (rule mset_eq_length)
  ultimately show ?thesis by (simp add: mean_def)
qed

lemma avg_of_mset:
  assumes "mset xs = mset ys" shows "avg_of xs = avg_of ys"
proof -
  have "xs = [] \<longleftrightarrow> ys = []" using assms by (metis mset_zero_iff)
  then show ?thesis using mean_mset [OF assms] by (simp add: avg_of_def)
qed

lemma ratings_ok_mset:
  assumes "mset ratings' = mset ratings" "ratings_ok ratings"
  shows "ratings_ok ratings'"
proof -
  have "set ratings' = set ratings" using assms(1) by (rule mset_eq_setD)
  moreover have "length ratings' = length ratings" using assms(1) by (rule mset_eq_length)
  ultimately show ?thesis using assms(2) by (simp add: ratings_ok_def list_all_iff)
qed

lemma rateStore_mset:
  assumes "mset ratings' = mset ratings" "ratings_ok ratings"
  shows "rateStore ratings' s = rateStore ratings s"
proof -
  have ok: "ratings_ok ratings'" using assms by (rule ratings_ok_mset)
  have m: "mset (scores_for s ratings') = mset (scores_for s ratings)"
    using assms(1) by (rule scores_for_mset)
  have "length (scores_for s ratings') = length (scores_for s ratings)"
    using m by (rule mset_eq_length)
  then show ?thesis
    by (simp add: rateStore_eq [OF ok] rateStore_eq [OF assms(2)] avg_of_mset [OF m])
qed

section \<open>The claims about the aggregation\<close>

text \<open>
  Claim C1, as amended. For ratings the service can hand over and every store of the
  list, \<open>totalRatings\<close> is the number of ratings whose \<open>store_id\<close> is the store's id;
  with no such rating both \<open>averageRating\<close> and \<open>totalRatings\<close> are 0; otherwise
  \<open>averageRating\<close> is the Number read from a numeral \<open>n/10\<close> of one fractional digit
  that lies within 0.05 of the arithmetic mean of those scores: the mean rounded to one
  decimal place, except that a mean exactly halfway between two such numerals may go to
  either neighbour (the quotient is rounded to binary64 before it is printed).
\<close>

theorem calculateStoreRatings_average:
  assumes "ratings_ok ratings" and "i < length stores"
  shows "totalRatings (calculateStoreRatings stores ratings ! i)
        = length (scores_for (stores ! i) ratings)
    \<and> (scores_for (stores ! i) ratings = [] \<longrightarrow>
          averageRating (calculateStoreRatings stores ratings ! i) = 0
          \<and> totalRatings (calculateStoreRatings stores ratings ! i) = 0)
    \<and> (scores_for (stores ! i) ratings \<noteq> [] \<longrightarrow>
          (\<exists>n. averageRating (calculateStoreRatings stores ratings ! i) = parseFloat (Decimal n 1)
             \<and> \<bar>of_int n / 10 - mean (scores_for (stores ! i) ratings)\<bar> \<le> 1 / 20
             \<and> (frac (mean (scores_for (stores ! i) ratings) * 10) \<noteq> 1 / 2 \<longrightarrow>
                  Decimal n 1 = mean_rounded1 (scores_for (stores ! i) ratings))))"
proof -
  define s where "s = stores ! i"
  define xs where "xs = scores_for s ratings"
  define rs where "rs = filter (\<lambda>r. store_id r = id' s) ratings"
  have out: "calculateStoreRatings stores ratings ! i = rateStore ratings s"
    using assms(2) by (simp add: calc_nth s_def)
  have total: "totalRatings (rateStore ratings s) = length xs"
    by (simp add: rateStore_total xs_def)
  have none: "xs = [] \<longrightarrow> averageRating (rateStore ratings s) = 0 \<and> totalRatings (rateStore ratings s) = 0"
    using rateStore_none [of s ratings] total by (simp add: xs_def)
  have some: "\<exists>n. averageRating (rateStore ratings s) = parseFloat (Decimal n 1)
      \<and> \<bar>of_int n / 10 - mean xs\<bar> \<le> 1 / 20
      \<and> (frac (mean xs * 10) \<noteq> 1 / 2 \<longrightarrow> Decimal n 1 = mean_rounded1 xs)" if ne: "xs \<noteq> []"
  proof -
    define n where "n = \<lfloor>fl (mean xs) * 10 + 1 / 2\<rfloor>"
    have sc: "xs = map rating rs" by (simp add: xs_def scores_for_def rs_def)
    have rne: "rs \<noteq> []" using ne sc by auto
    have ok: "list_all (\<lambda>r. 1 \<le> rating r \<and> rating r \<le> 5) rs" "length rs < 2 ^ 32"
      unfolding rs_def by (rule filter_ok [OF assms(1)])+
    have a: "averageRating (rateStore ratings s) = parseFloat (Decimal n 1)"
      using rateStore_average [OF assms(1), of s] ne by (simp add: xs_def n_def)
    have b: "\<bar>of_int n / 10 - mean xs\<bar> \<le> 1 / 20"
      using tenths_near [OF ok rne] by (simp add: n_def sc)
    have c: "frac (mean xs * 10) \<noteq> 1 / 2 \<longrightarrow> Decimal n 1 = mean_rounded1 xs"
      using tenths_unique [OF b] by (simp add: mean_rounded1_def)
    show ?thesis using a b c by blast
  qed
  show ?thesis
    unfolding out s_def [symmetric] xs_def [symmetric] using total none some by blast
qed

text \<open>
  The example of the specification: a store with the scores 5, 4 and 3 (and a rating of
  another store in between) gets the average 4.0 and the total 3.
\<close>

theorem calculateStoreRatings_average_witness:
  "ratings_ok [\<lparr>store_id = 1, rating = 5\<rparr>, \<lparr>store_id = 2, rating = 2\<rparr>,
               \<lparr>store_id = 1, rating = 4\<rparr>, \<lparr>store_id = 1, rating = 3\<rparr>]
   \<and> (0::nat) < length [\<lparr>id' = 1, name = ''S'', email = ''s@example.org'', address = ''A'',
                          owner_id = None, created_at = ''t''\<rparr>]
   \<and> totalRatings (calculateStoreRatings
        [\<lparr>id' = 1, name = ''S'', email = ''s@example.org'', address = ''A'',
          owner_id = None, created_at = ''t''\<rparr>]
        [\<lparr>store_id = 1, rating = 5\<rparr>, \<lparr>store_id = 2, rating = 2\<rparr>,
         \<lparr>store_id = 1, rating = 4\<rparr>, \<lparr>store_id = 1, rating = 3\<rparr>] ! 0) = 3
   \<and> averageRating (calculateStoreRatings
        [\<lparr>id' = 1, name = ''S'', email = ''s@example.org'', address = ''A'',
          owner_id = None, created_at = ''t''\<rparr>]
        [\<lparr>store_id = 1, rating = 5\<rparr>, \<lparr>store_id = 2, rating = 2\<rparr>,
         \<lparr>store_id = 1, rating = 4\<rparr>, \<lparr>store_id = 1, rating = 3\<rparr>] ! 0) = 4"
proof -
  let ?S = "\<lparr>id' = 1, name = ''S'', email = ''s@example.org'', address = ''A'',
             owner_id = None, created_at = ''t''\<rparr>"
  let ?R = "[\<lparr>store_id = 1, rating = 5\<rparr>, \<lparr>store_id = 2, rating = 2\<rparr>,
             \<lparr>store_id = 1, rating = 4\<rparr>, \<lparr>store_id = 1, rating = 3\<rparr>]"
  have ok: "ratings_ok ?R" by (simp add: ratings_ok_def)
  have len: "(0::nat) < length [?S]" by simp
  have sc: "scores_for ([?S] ! 0) ?R = [5, 4, 3]" by (simp add: scores_for_def)
  have m: "mean [5, 4, 3] = 4" by (simp add: mean_def)
  have "\<lfloor>(81::rat) / 2\<rfloor> = 40" by (intro floor_unique) simp_all
  then have r: "mean_rounded1 [5, 4, 3] = Decimal 40 1" by (simp add: mean_rounded1_def m)
  have f: "frac (mean [5, 4, 3] * 10) \<noteq> 1 / 2" by (simp add: m frac_def)
  have p: "parseFloat (Decimal 40 1) = 4" using fl_of_int [of 4] by simp
  from calculateStoreRatings_average [OF ok len]
  have t: "totalRatings (calculateStoreRatings [?S] ?R ! 0) = 3"
    and "\<exists>n. averageRating (calculateStoreRatings [?S] ?R ! 0) = parseFloat (Decimal n 1)
      \<and> (frac (mean [5, 4, 3] * 10) \<noteq> 1 / 2 \<longrightarrow> Decimal n 1 = mean_rounded1 [5, 4, 3])"
    unfolding sc by auto
  then have "averageRating (calculateStoreRatings [?S] ?R ! 0) = 4" using f r p by auto
  then show ?thesis using ok t by simp
qed

text \<open>
  The claim as stated fails where the mean is a tie: seventeen ratings of 1 and three of
  2 have the mean 1.15, which rounds to 1.2 (a half up, or a half to even); the quotient
  23/20 as a Number lies just below 1.15, so \<open>toFixed(1)\<close> prints 1.1, and the store's
  \<open>averageRating\<close> is the Number 1.1, which is not the Number 1.2.
\<close>

theorem calculateStoreRatings_average_counterexample:
  "averageRating (calculateStoreRatings
      [\<lparr>id' = 1, name = ''S'', email = ''s@example.org'', address = ''A'',
        owner_id = None, created_at = ''t''\<rparr>]
      (replicate 17 \<lparr>store_id = 1, rating = 1\<rparr> @ replicate 3 \<lparr>store_id = 1, rating = 2\<rparr>) ! 0)
     = parseFloat (Decimal 11 1)
   \<and> mean (scores_for \<lparr>id' = 1, name = ''S'', email = ''s@example.org'', address = ''A'',
        owner_id = None, created_at = ''t''\<rparr>
      (replicate 17 \<lparr>store_id = 1, rating = 1\<rparr> @ replicate 3 \<lparr>store_id = 1, rating = 2\<rparr>))
     = 23 / 20
   \<and> mean_rounded1 (scores_for \<lparr>id' = 1, name = ''S'', email = ''s@example.org'', address = ''A'',
        owner_id = None, created_at = ''t''\<rparr>
      (replicate 17 \<lparr>store_id = 1, rating = 1\<rparr> @ replicate 3 \<lparr>store_id = 1, rating = 2\<rparr>))
     = Decimal 12 1
   \<and> parseFloat (Decimal 11 1) \<noteq> parseFloat (Decimal 12 1)"
proof -
  let ?S = "\<lparr>id' = 1, name = ''S'', email = ''s@example.org'', address = ''A'',
             owner_id = None, created_at = ''t''\<rparr>"
  let ?R = "replicate 17 \<lparr>store_id = 1, rating = 1\<rparr> @ replicate 3 \<lparr>store_id = 1, rating = 2\<rparr>"
  have ok: "ratings_ok ?R" by (simp add: ratings_ok_def list_all_iff)
  have sc: "scores_for ?S ?R = replicate 17 1 @ replicate 3 2" by (simp add: scores_for_def)
  have m: "mean (scores_for ?S ?R) = 23 / 20" by (simp add: sc mean_def sum_list_replicate)
  have n: "\<lfloor>fl (23 / 20) * 10 + 1 / 2\<rfloor> = 11" by code_simp
  have "averageRating (rateStore ?R ?S) = parseFloat (Decimal 11 1)"
    using rateStore_average [OF ok, of ?S] by (simp only: m n) (simp add: sc)
  then have a: "averageRating (calculateStoreRatings [?S] ?R ! 0) = parseFloat (Decimal 11 1)"
    by (simp add: calc_nth)
  have r: "mean_rounded1 (scores_for ?S ?R) = Decimal 12 1"
    by (simp add: mean_rounded1_def m)
  have d: "parseFloat (Decimal 11 1) \<noteq> parseFloat (Decimal 12 1)" by code_simp
  show ?thesis using a m r d by blast
qed

text \<open>
  Claim C6. The aggregation is a function of its two arguments alone, and for ratings the
  service can hand over its result does not depend on their order: a permutation of the
  ratings leaves every output record as it is, and a permutation of the stores permutes
  the output records with them.
\<close>

theorem calculateStoreRatings_order_independent:
  assumes "ratings_ok ratings" and "mset ratings' = mset ratings"
    and "mset stores' = mset stores"
  shows "calculateStoreRatings stores ratings' = calculateStoreRatings stores ratings
    \<and> mset (calculateStoreRatings stores' ratings') = mset (calculateStoreRatings stores ratings)"
proof -
  have r: "rateStore ratings' = rateStore ratings"
    using rateStore_mset [OF assms(2,1)] by (rule ext)
  have "mset (map (rateStore ratings) stores') = image_mset (rateStore ratings) (mset stores')"
    by simp
  also have "\<dots> = mset (map (rateStore ratings) stores)" by (simp add: assms(3))
  finally show ?thesis by (simp add: calculateStoreRatings_def r)
qed

theorem calculateStoreRatings_order_independent_witness:
  "ratings_ok [\<lparr>store_id = 1, rating = 5\<rparr>, \<lparr>store_id = 2, rating = 2\<rparr>, \<lparr>store_id = 1, rating = 4\<rparr>]
   \<and> mset [\<lparr>store_id = 1, rating = 4\<rparr>, \<lparr>store_id = 1, rating = 5\<rparr>, \<lparr>store_id = 2, rating = 2\<rparr>]
     = mset [\<lparr>store_id = 1, rating = 5\<rparr>, \<lparr>store_id = 2, rating = 2\<rparr>, \<lparr>store_id = 1, rating = 4\<rparr>]
   \<and> mset [\<lparr>id' = 2, name = ''T'', email = ''t@example.org'', address = ''B'',
             owner_id = Some ''o'', created_at = ''t2''\<rparr>,
            \<lparr>id' = 1, name = ''S'', email = ''s@example.org'', address = ''A'',
             owner_id = None, created_at = ''t1''\<rparr>]
     = mset [\<lparr>id' = 1, name = ''S'', email = ''s@example.org'', address = ''A'',
              owner_id = None, created_at = ''t1''\<rparr>,
             \<lparr>id' = 2, name = ''T'', email = ''t@example.org'', address = ''B'',
              owner_id = Some ''o'', created_at = ''t2''\<rparr>]
   \<and> calculateStoreRatings
        [\<lparr>id' = 1, name = ''S'', email = ''s@example.org'', address = ''A'',
          owner_id = None, created_at = ''t1''\<rparr>,
         \<lparr>id' = 2, name = ''T'', email = ''t@example.org'', address = ''B'',
          owner_id = Some ''o'', created_at = ''t2''\<rparr>]
        [\<lparr>store_id = 1, rating = 4\<rparr>, \<lparr>store_id = 1, rating = 5\<rparr>, \<lparr>store_id = 2, rating = 2\<rparr>]
     = calculateStoreRatings
        [\<lparr>id' = 1, name = ''S'', email = ''s@example.org'', address = ''A'',
          owner_id = None, created_at = ''t1''\<rparr>,
         \<lparr>id' = 2, name = ''T'', email = ''t@example.org'', address = ''B'',
          owner_id = Some ''o'', created_at = ''t2''\<rparr>]
        [\<lparr>store_id = 1, rating = 5\<rparr>, \<lparr>store_id = 2, rating = 2\<rparr>, \<lparr>store_id = 1, rating = 4\<rparr>]
   \<and> mset (calculateStoreRatings
        [\<lparr>id' = 2, name = ''T'', email = ''t@example.org'', address = ''B'',
          owner_id = Some ''o'', created_at = ''t2''\<rparr>,
         \<lparr>id' = 1, name = ''S'', email = ''s@example.org'', address = ''A'',
          owner_id = None, created_at = ''t1''\<rparr>]
        [\<lparr>store_id = 1, rating = 4\<rparr>, \<lparr>store_id = 1, rating = 5\<rparr>, \<lparr>store_id = 2, rating = 2\<rparr>])
     = mset (calculateStoreRatings
        [\<lparr>id' = 1, name = ''S'', email = ''s@example.org'', address = ''A'',
          owner_id = None, created_at = ''t1''\<rparr>,
         \<lparr>id' = 2, name = ''T'', email = ''t@example.org'', address = ''B'',
          owner_id = Some ''o'', created_at = ''t2''\<rparr>]
        [\<lparr>store_id = 1, rating = 5\<rparr>, \<lparr>store_id = 2, rating = 2\<rparr>, \<lparr>store_id = 1, rating = 4\<rparr>])"
proof -
  let ?R = "[\<lparr>store_id = 1, rating = 5\<rparr>, \<lparr>store_id = 2, rating = 2\<rparr>, \<lparr>store_id = 1, rating = 4\<rparr>]"
  let ?R' = "[\<lparr>store_id = 1, rating = 4\<rparr>, \<lparr>store_id = 1, rating = 5\<rparr>, \<lparr>store_id = 2, rating = 2\<rparr>]"
  let ?S = "\<lparr>id' = 1, name = ''S'', email = ''s@example.org'', address = ''A'',
             owner_id = None, created_at = ''t1''\<rparr>"
  let ?T = "\<lparr>id' = 2, name = ''T'', email = ''t@example.org'', address = ''B'',
             owner_id = Some ''o'', created_at = ''t2''\<rparr>"
  have ok: "ratings_ok ?R" by (simp add: ratings_ok_def)
  have p: "mset ?R' = mset ?R" by (simp add: add.commute)
  have q: "mset [?T, ?S] = mset [?S, ?T]" by (simp add: add.commute)
  show ?thesis
    using calculateStoreRatings_order_independent [OF ok p q] ok p q by blast
qed

text \<open>
  Claim C10. The aggregation returns one record per store, in the order of the stores;
  each record is its store with the two derived fields added (cut back to the store's
  fields it is the store); and for ratings the service can hand over (scores in [1,5],
  in an array) every \<open>averageRating\<close> lies in [0,5].
\<close>

theorem calculateStoreRatings_frame:
  "length (calculateStoreRatings stores ratings) = length stores
   \<and> map store.truncate (calculateStoreRatings stores ratings) = stores
   \<and> (ratings_ok ratings \<longrightarrow>
        list_all (\<lambda>out. 0 \<le> averageRating out \<and> averageRating out \<le> 5)
          (calculateStoreRatings stores ratings))"
proof -
  have len: "length (calculateStoreRatings stores ratings) = length stores"
    by (simp add: calculateStoreRatings_def)
  have "map store.truncate (map (rateStore ratings) stores) = map (\<lambda>s. s) stores"
    unfolding map_map by (rule map_cong) (simp_all add: rateStore_truncate)
  then have frame: "map store.truncate (calculateStoreRatings stores ratings) = stores"
    by (simp add: calculateStoreRatings_def)
  have range: "list_all (\<lambda>out. 0 \<le> averageRating out \<and> averageRating out \<le> 5)
      (calculateStoreRatings stores ratings)" if ok: "ratings_ok ratings"
  proof -
    have "0 \<le> averageRating (rateStore ratings s) \<and> averageRating (rateStore ratings s) \<le> 5" for s
    proof -
      define rs where "rs = filter (\<lambda>r. store_id r = id' s) ratings"
      have sc: "scores_for s ratings = map rating rs" by (simp add: scores_for_def rs_def)
      have "list_all (\<lambda>r. 1 \<le> rating r \<and> rating r \<le> 5) rs"
        unfolding rs_def by (rule filter_ok [OF ok])
      then have "0 \<le> avg_of (map rating rs) \<and> avg_of (map rating rs) \<le> 5"
        by (rule avg_of_range)
      then show ?thesis
        by (simp add: rateStore_eq [OF ok] sc store.defs rated_store.defs)
    qed
    then show ?thesis by (simp add: calculateStoreRatings_def list_all_iff)
  qed
  show ?thesis using len frame range by blast
qed

theorem calculateStoreRatings_frame_witness:
  "ratings_ok [\<lparr>store_id = 1, rating = 5\<rparr>, \<lparr>store_id = 1, rating = 4\<rparr>]
   \<and> map store.truncate (calculateStoreRatings
        [\<lparr>id' = 1, name = ''S'', email = ''s@example.org'', address = ''A'',
          owner_id = None, created_at = ''t1''\<rparr>,
         \<lparr>id' = 2, name = ''T'', email = ''t@example.org'', address = ''B'',
          owner_id = Some ''o'', created_at = ''t2''\<rparr>]
        [\<lparr>store_id = 1, rating = 5\<rparr>, \<lparr>store_id = 1, rating = 4\<rparr>])
     = [\<lparr>id' = 1, name = ''S'', email = ''s@example.org'', address = ''A'',
          owner_id = None, created_at = ''t1''\<rparr>,
         \<lparr>id' = 2, name = ''T'', email = ''t@example.org'', address = ''B'',
          owner_id = Some ''o'', created_at = ''t2''\<rparr>]
   \<and> list_all (\<lambda>out. 0 \<le> averageRating out \<and> averageRating out \<le> 5)
        (calculateStoreRatings
          [\<lparr>id' = 1, name = ''S'', email = ''s@example.org'', address = ''A'',
            owner_id = None, created_at = ''t1''\<rparr>,
           \<lparr>id' = 2, name = ''T'', email = ''t@example.org'', address = ''B'',
            owner_id = Some ''o'', created_at = ''t2''\<rparr>]
          [\<lparr>store_id = 1, rating = 5\<rparr>, \<lparr>store_id = 1, rating = 4\<rparr>])"
proof -
  have ok: "ratings_ok [\<lparr>store_id = 1, rating = 5\<rparr>, \<lparr>store_id = 1, rating = 4\<rparr>]"
    by (simp add: ratings_ok_def)
  show ?thesis
    using calculateStoreRatings_frame
      [of "[\<lparr>id' = 1, name = ''S'', email = ''s@example.org'', address = ''A'',
            owner_id = None, created_at = ''t1''\<rparr>,
           \<lparr>id' = 2, name = ''T'', email = ''t@example.org'', address = ''B'',
            owner_id = Some ''o'', created_at = ''t2''\<rparr>]"
          "[\<lparr>store_id = 1, rating = 5\<rparr>, \<lparr>store_id = 1, rating = 4\<rparr>]"] ok
    by blast
qed

section \<open>The upsert: the claims about rating submission\<close>

lemma upsert_cases:
  assumes "upsert tbl storeId userId score = Inr (tbl', row)"
  obtains (update) old where "1 \<le> score" "score \<le> 5"
      "find (\<lambda>r. store_id r = storeId \<and> user_id r = userId) (records tbl) = Some old"
      "records tbl' = map (\<lambda>r. if store_id r = storeId \<and> user_id r = userId
                                 then r\<lparr>rating := score\<rparr> else r) (records tbl)"
      "row = old\<lparr>rating := score\<rparr>"
  | (insert) "1 \<le> score" "score \<le> 5"
      "find (\<lambda>r. store_id r = storeId \<and> user_id r = userId) (records tbl) = None"
      "records tbl' = records tbl @ [row]"
      "row = \<lparr>store_id = storeId, rating = score, rating_id = next_id tbl, user_id = userId\<rparr>"
proof -
  have range: "1 \<le> score" "score \<le> 5"
    using assms by (simp_all add: upsert_def split: if_splits)
  show thesis
  proof (cases "find (\<lambda>r. store_id r = storeId \<and> user_id r = userId) (records tbl)")
    case None
    define new where
      "new = \<lparr>store_id = storeId, rating = score, rating_id = next_id tbl, user_id = userId\<rparr>"
    have "upsert tbl storeId userId score
      = Inr (tbl\<lparr>records := records tbl @ [new], next_id := next_id tbl + 1\<rparr>, new)"
      using range None by (simp add: upsert_def Let_def new_def)
    then have "Inr (tbl\<lparr>records := records tbl @ [new], next_id := next_id tbl + 1\<rparr>, new)
      = (Inr (tbl', row) :: service_error + ratings_table \<times> ratings_record)"
      using assms by (rule trans [OF sym])
    then have "tbl\<lparr>records := records tbl @ [new], next_id := next_id tbl + 1\<rparr> = tbl' \<and> new = row"
      unfolding sum.inject prod.inject .
    then have t: "tbl' = tbl\<lparr>records := records tbl @ [new], next_id := next_id tbl + 1\<rparr>"
      and r: "row = new" by blast+
    have "records tbl' = records tbl @ [row]" by (simp add: t r)
    then show ?thesis using range None r by (intro insert) (simp_all add: new_def)
  next
    case (Some old)
    define upd :: "ratings_record \<Rightarrow> ratings_record" where "upd = (\<lambda>r. if store_id r = storeId \<and> user_id r = userId
                                 then r\<lparr>rating := score\<rparr> else r)"
    have "upsert tbl storeId userId score
      = Inr (tbl\<lparr>records := map upd (records tbl)\<rparr>, old\<lparr>rating := score\<rparr>)"
      using range Some by (simp add: upsert_def upd_def)
    then have "Inr (tbl\<lparr>records := map upd (records tbl)\<rparr>, old\<lparr>rating := score\<rparr>)
      = (Inr (tbl', row) :: service_error + ratings_table \<times> ratings_record)"
      using assms by (rule trans [OF sym])
    then have "tbl\<lparr>records := map upd (records tbl)\<rparr> = tbl' \<and> old\<lparr>rating := score\<rparr> = row"
      unfolding sum.inject prod.inject .
    then have t: "tbl' = tbl\<lparr>records := map upd (records tbl)\<rparr>"
      and r: "row = old\<lparr>rating := score\<rparr>" by blast+
    have "records tbl' = map upd (records tbl)" by (simp add: t)
    then show ?thesis using range Some r by (intro update) (simp_all add: upd_def)
  qed
qed

lemma submitRating_upsert: "submitRating tbl storeId userId score = upsert tbl storeId userId score"
  by (simp add: submitRating_def split: sum.splits)

lemma filter_overwrite:
  "filter (\<lambda>r. store_id r = S \<and> user_id r = U)
     (map (\<lambda>r. if store_id r = S \<and> user_id r = U then r\<lparr>rating := x\<rparr> else r) rs)
   = map (\<lambda>r. r\<lparr>rating := x\<rparr>) (filter (\<lambda>r. store_id r = S \<and> user_id r = U) rs)"
  by (induction rs) auto

lemma filter_others_overwrite:
  "filter (\<lambda>r. \<not> (store_id r = S \<and> user_id r = U))
     (map (\<lambda>r. if store_id r = S \<and> user_id r = U then r\<lparr>rating := x\<rparr> else r) rs)
   = filter (\<lambda>r. \<not> (store_id r = S \<and> user_id r = U)) rs"
  by (induction rs) auto

lemma keys_overwrite:
  "map (\<lambda>r. (user_id r, store_id r))
     (map (\<lambda>r. if store_id r = S \<and> user_id r = U then r\<lparr>rating := x\<rparr> else r) rs)
   = map (\<lambda>r. (user_id r, store_id r)) rs"
  by (induction rs) auto

lemma unique_find_filter:
  assumes "unique_user_store rs"
    and "find (\<lambda>r. store_id r = S \<and> user_id r = U) rs = Some old"
  shows "filter (\<lambda>r. store_id r = S \<and> user_id r = U) rs = [old]"
  using assms
proof (induction rs)
  case Nil
  then show ?case by simp
next
  case (Cons r rs)
  show ?case
  proof (cases "store_id r = S \<and> user_id r = U")
    case True
    then have old: "old = r" using Cons.prems(2) by simp
    have "(U, S) \<notin> set (map (\<lambda>r. (user_id r, store_id r)) rs)"
      using Cons.prems(1) True by (auto simp: unique_user_store_def)
    then have "filter (\<lambda>r. store_id r = S \<and> user_id r = U) rs = []"
      by (auto simp: filter_empty_conv)
    then show ?thesis using True old by simp
  next
    case False
    then have "find (\<lambda>r. store_id r = S \<and> user_id r = U) rs = Some old"
      using Cons.prems(2) by auto
    moreover have "unique_user_store rs" using Cons.prems(1) by (simp add: unique_user_store_def)
    ultimately show ?thesis using False Cons.IH by simp
  qed
qed

lemma find_None_filter:
  "find P rs = None \<Longrightarrow> filter P rs = []"
  by (auto simp: find_None_iff filter_empty_conv)

lemma scores_for_select:
  "scores_for st (select_ratings tbl) = map rating (filter (\<lambda>r. store_id r = id' st) (records tbl))"
  by (simp add: scores_for_def select_ratings_def filter_map o_def rating_row.defs)

lemma store_split:
  "mset (filter (\<lambda>r. store_id r = S) rs)
   = mset (filter (\<lambda>r. store_id r = S \<and> user_id r = U) rs)
     + mset (filter (\<lambda>r. store_id r = S \<and> user_id r \<noteq> U) rs)"
  by (induction rs) auto

lemma others_of_store:
  "filter (\<lambda>r. store_id r = S \<and> user_id r \<noteq> U) rs
   = filter (\<lambda>r. store_id r = S) (filter (\<lambda>r. \<not> (store_id r = S \<and> user_id r = U)) rs)"
  by (induction rs) auto

lemma ratings_ok_select:
  assumes "list_all (\<lambda>r. 1 \<le> rating r \<and> rating r \<le> 5) (records tbl)"
    and "length (records tbl) < 2 ^ 32"
  shows "ratings_ok (select_ratings tbl)"
  using assms by (simp add: ratings_ok_def select_ratings_def list_all_iff rating_row.defs)

lemma check_overwrite:
  assumes "list_all (\<lambda>r. 1 \<le> rating r \<and> rating r \<le> 5) rs" "1 \<le> x" "x \<le> 5"
  shows "list_all (\<lambda>r. 1 \<le> rating r \<and> rating r \<le> 5)
    (map (\<lambda>r. if store_id r = S \<and> user_id r = U then r\<lparr>rating := x\<rparr> else r) rs)"
  using assms by (induction rs) auto

lemma count_overwrite:
  "length (filter (\<lambda>r. store_id r = S')
     (map (\<lambda>r. if store_id r = S \<and> user_id r = U then r\<lparr>rating := x\<rparr> else r) rs))
   = length (filter (\<lambda>r. store_id r = S') rs)"
  by (induction rs) auto

text \<open>
  Claim C2. On a ratings table that satisfies its declared constraints, a rating
  submission that succeeds leaves exactly one row of the rater for the store, holding the
  new score, and every other row as it was; the table's constraints still hold; the
  store's recomputed \<open>totalRatings\<close> is unchanged when the rater had rated the store and
  one more when not; and the recomputed \<open>averageRating\<close> is the average of the other
  raters' scores and the new score, the overwritten score taking no part in it.
\<close>

theorem submitRating_overwrites:
  assumes "table_ok tbl"
    and "submitRating tbl storeId userId score = Inr (tbl', row)"
    and "id' st = storeId"
    and "length (records tbl') < 2 ^ 32"
  shows "table_ok tbl'
    \<and> filter (\<lambda>r. store_id r = storeId \<and> user_id r = userId) (records tbl') = [row]
    \<and> rating row = score
    \<and> filter (\<lambda>r. \<not> (store_id r = storeId \<and> user_id r = userId)) (records tbl')
        = filter (\<lambda>r. \<not> (store_id r = storeId \<and> user_id r = userId)) (records tbl)
    \<and> totalRatings (rateStore (select_ratings tbl') st)
        = totalRatings (rateStore (select_ratings tbl) st)
          + (if filter (\<lambda>r. store_id r = storeId \<and> user_id r = userId) (records tbl) = []
             then 1 else 0)
    \<and> averageRating (rateStore (select_ratings tbl') st)
        = avg_of (score # map rating
            (filter (\<lambda>r. store_id r = storeId \<and> user_id r \<noteq> userId) (records tbl)))"
proof -
  let ?P = "\<lambda>r. store_id r = storeId \<and> user_id r = userId"
  let ?O = "\<lambda>r. store_id r = storeId \<and> user_id r \<noteq> userId"
  have uniq: "unique_user_store (records tbl)"
    and chk: "list_all (\<lambda>r. 1 \<le> rating r \<and> rating r \<le> 5) (records tbl)"
    using assms(1) by (simp_all add: table_ok_def)
  have ups: "upsert tbl storeId userId score = Inr (tbl', row)"
    using assms(2) by (simp only: submitRating_upsert)
  have facts: "unique_user_store (records tbl')
      \<and> list_all (\<lambda>r. 1 \<le> rating r \<and> rating r \<le> 5) (records tbl')
      \<and> filter ?P (records tbl') = [row] \<and> rating row = score
      \<and> filter (\<lambda>r. \<not> ?P r) (records tbl') = filter (\<lambda>r. \<not> ?P r) (records tbl)
      \<and> length (filter (\<lambda>r. store_id r = storeId) (records tbl'))
          = length (filter (\<lambda>r. store_id r = storeId) (records tbl))
            + (if filter ?P (records tbl) = [] then 1 else 0)"
    using ups
  proof (cases rule: upsert_cases)
    case (update old)
    have one: "filter ?P (records tbl) = [old]" using uniq update(3) by (rule unique_find_filter)
    have a: "unique_user_store (records tbl')"
      using uniq unfolding unique_user_store_def update(4) keys_overwrite .
    have b: "list_all (\<lambda>r. 1 \<le> rating r \<and> rating r \<le> 5) (records tbl')"
      unfolding update(4) using chk update(1,2) by (rule check_overwrite)
    have c: "filter ?P (records tbl') = [row]"
      by (simp only: update(4) filter_overwrite one update(5)) simp
    have d: "rating row = score" by (simp add: update(5))
    have e: "filter (\<lambda>r. \<not> ?P r) (records tbl') = filter (\<lambda>r. \<not> ?P r) (records tbl)"
      by (simp only: update(4) filter_others_overwrite)
    have "length (filter (\<lambda>r. store_id r = storeId) (records tbl'))
        = length (filter (\<lambda>r. store_id r = storeId) (records tbl))"
      unfolding update(4) by (rule count_overwrite)
    then have f: "length (filter (\<lambda>r. store_id r = storeId) (records tbl'))
          = length (filter (\<lambda>r. store_id r = storeId) (records tbl))
            + (if filter ?P (records tbl) = [] then 1 else 0)"
      using one by simp
    show ?thesis using a b c d e f by blast
  next
    case insert
    have none: "filter ?P (records tbl) = []" using insert(3) by (rule find_None_filter)
    then have nokey: "(userId, storeId) \<notin> set (map (\<lambda>r. (user_id r, store_id r)) (records tbl))"
      by (auto simp: filter_empty_conv)
    have row: "store_id row = storeId" "user_id row = userId" "rating row = score"
      by (simp_all add: insert(5))
    have a: "unique_user_store (records tbl')"
      using uniq nokey by (simp add: unique_user_store_def insert(4) row)
    have b: "list_all (\<lambda>r. 1 \<le> rating r \<and> rating r \<le> 5) (records tbl')"
      using chk insert(1,2) by (simp add: insert(4) row)
    have c: "filter ?P (records tbl') = [row]" by (simp add: insert(4) none row)
    have e: "filter (\<lambda>r. \<not> ?P r) (records tbl') = filter (\<lambda>r. \<not> ?P r) (records tbl)"
      by (simp add: insert(4) row)
    have f: "length (filter (\<lambda>r. store_id r = storeId) (records tbl'))
          = length (filter (\<lambda>r. store_id r = storeId) (records tbl))
            + (if filter ?P (records tbl) = [] then 1 else 0)"
      by (simp add: insert(4) none row)
    show ?thesis using a b c row(3) e f by blast
  qed
  then have inv: "table_ok tbl'" by (simp add: table_ok_def)
  have total: "totalRatings (rateStore (select_ratings tbl') st)
        = totalRatings (rateStore (select_ratings tbl) st)
          + (if filter ?P (records tbl) = [] then 1 else 0)"
    using facts by (simp add: rateStore_total scores_for_select assms(3))
  have ok: "ratings_ok (select_ratings tbl')"
    using facts assms(4) by (intro ratings_ok_select) simp_all
  have "mset (filter (\<lambda>r. store_id r = storeId) (records tbl'))
      = mset (filter ?P (records tbl')) + mset (filter ?O (records tbl'))"
    by (rule store_split)
  also have "filter ?O (records tbl') = filter ?O (records tbl)"
    using facts by (simp add: others_of_store [of storeId userId])
  also have "filter ?P (records tbl') = [row]" using facts by simp
  finally have "mset (map rating (filter (\<lambda>r. store_id r = storeId) (records tbl')))
      = mset (score # map rating (filter ?O (records tbl)))"
    using facts by simp
  then have "avg_of (map rating (filter (\<lambda>r. store_id r = storeId) (records tbl')))
      = avg_of (score # map rating (filter ?O (records tbl)))"
    by (rule avg_of_mset)
  then have avg: "averageRating (rateStore (select_ratings tbl') st)
      = avg_of (score # map rating (filter ?O (records tbl)))"
    by (simp add: rateStore_eq [OF ok] scores_for_select assms(3) store.defs rated_store.defs)
  show ?thesis using inv facts total avg by blast
qed

text \<open>
  The example of the specification: a rater who has given store 7 the score 3 rates it
  again with 5; the one row now holds 5, the store's total stays what it was, and the
  average is that of the score 5 alone.
\<close>

theorem submitRating_overwrites_witness:
  "table_ok \<lparr>records = [\<lparr>store_id = 7, rating = 3, rating_id = 1, user_id = ''u''\<rparr>], next_id = 2\<rparr>
   \<and> submitRating
        \<lparr>records = [\<lparr>store_id = 7, rating = 3, rating_id = 1, user_id = ''u''\<rparr>], next_id = 2\<rparr>
        7 ''u'' 5
     = Inr (\<lparr>records = [\<lparr>store_id = 7, rating = 5, rating_id = 1, user_id = ''u''\<rparr>], next_id = 2\<rparr>,
            \<lparr>store_id = 7, rating = 5, rating_id = 1, user_id = ''u''\<rparr>)
   \<and> totalRatings (rateStore (select_ratings
        \<lparr>records = [\<lparr>store_id = 7, rating = 5, rating_id = 1, user_id = ''u''\<rparr>], next_id = 2\<rparr>)
        \<lparr>id' = 7, name = ''S'', email = ''s@example.org'', address = ''A'',
         owner_id = None, created_at = ''t''\<rparr>)
     = totalRatings (rateStore (select_ratings
        \<lparr>records = [\<lparr>store_id = 7, rating = 3, rating_id = 1, user_id = ''u''\<rparr>], next_id = 2\<rparr>)
        \<lparr>id' = 7, name = ''S'', email = ''s@example.org'', address = ''A'',
         owner_id = None, created_at = ''t''\<rparr>)
   \<and> averageRating (rateStore (select_ratings
        \<lparr>records = [\<lparr>store_id = 7, rating = 5, rating_id = 1, user_id = ''u''\<rparr>], next_id = 2\<rparr>)
        \<lparr>id' = 7, name = ''S'', email = ''s@example.org'', address = ''A'',
         owner_id = None, created_at = ''t''\<rparr>)
     = avg_of [5]"
proof -
  let ?t1 = "\<lparr>records = [\<lparr>store_id = 7, rating = 3, rating_id = 1, user_id = ''u''\<rparr>], next_id = 2\<rparr>"
  let ?r2 = "\<lparr>store_id = 7, rating = 5, rating_id = 1, user_id = ''u''\<rparr>"
  let ?t2 = "\<lparr>records = [?r2], next_id = 2\<rparr>"
  let ?S = "\<lparr>id' = 7, name = ''S'', email = ''s@example.org'', address = ''A'',
             owner_id = None, created_at = ''t''\<rparr>"
  have inv: "table_ok ?t1" by (simp add: table_ok_def unique_user_store_def)
  have sub: "submitRating ?t1 7 ''u'' 5 = Inr (?t2, ?r2)"
    by (simp add: submitRating_def upsert_def)
  have st: "id' ?S = 7" by simp
  have len: "length (records ?t2) < 2 ^ 32" by simp
  show ?thesis
    using submitRating_overwrites [OF inv sub st len] inv sub by simp
qed

text \<open>
  Claim C7. A rating submission fails with the validation error exactly when the score
  is outside [1,5], and it succeeds, inserting or overwriting, exactly when the score is
  inside.
\<close>

theorem submitRating_validates:
  "(submitRating tbl storeId userId score = Inl ValidationError) = (score < 1 \<or> 5 < score)
   \<and> (\<exists>tbl' row. submitRating tbl storeId userId score = Inr (tbl', row)
         \<and> row \<in> set (records tbl') \<and> rating row = score
         \<and> store_id row = storeId \<and> user_id row = userId)
     = (1 \<le> score \<and> score \<le> 5)"
proof -
  have bad: "submitRating tbl storeId userId score = Inl ValidationError"
    if "score < 1 \<or> 5 < score"
    using that by (auto simp: submitRating_def upsert_def)
  have good: "\<exists>tbl' row. submitRating tbl storeId userId score = Inr (tbl', row)
         \<and> row \<in> set (records tbl') \<and> rating row = score
         \<and> store_id row = storeId \<and> user_id row = userId"
    if r: "1 \<le> score \<and> score \<le> 5"
  proof (cases "find (\<lambda>r. store_id r = storeId \<and> user_id r = userId) (records tbl)")
    case None
    then show ?thesis using r by (simp add: submitRating_def upsert_def Let_def)
  next
    case (Some old)
    then have "old \<in> set (records tbl)" "store_id old = storeId" "user_id old = userId"
      by (auto simp: find_Some_iff)
    then have "old\<lparr>rating := score\<rparr> \<in> set (map (\<lambda>r. if store_id r = storeId \<and> user_id r = userId
                             then r\<lparr>rating := score\<rparr> else r) (records tbl))"
      by force
    then show ?thesis using r Some \<open>store_id old = storeId\<close> \<open>user_id old = userId\<close>
      by (simp add: submitRating_def upsert_def)
  qed
  have "submitRating tbl storeId userId score \<noteq> Inl ValidationError" if "1 \<le> score \<and> score \<le> 5"
    using good [OF that] by auto
  moreover have "\<not> (\<exists>tbl' row. submitRating tbl storeId userId score = Inr (tbl', row)
         \<and> row \<in> set (records tbl') \<and> rating row = score
         \<and> store_id row = storeId \<and> user_id row = userId)" if "score < 1 \<or> 5 < score"
    using bad [OF that] by auto
  ultimately show ?thesis using bad good by (cases "1 \<le> score \<and> score \<le> 5") auto
qed

theorem submitRating_validates_witness:
  "submitRating \<lparr>records = [], next_id = 1\<rparr> 7 ''u'' 6 = Inl ValidationError
   \<and> (\<exists>tbl' row. submitRating \<lparr>records = [], next_id = 1\<rparr> 7 ''u'' 5 = Inr (tbl', row)
        \<and> row \<in> set (records tbl') \<and> rating row = 5 \<and> store_id row = 7 \<and> user_id row = ''u'')"
  using submitRating_validates [of "\<lparr>records = [], next_id = 1\<rparr>" 7 "''u''" 6]
    submitRating_validates [of "\<lparr>records = [], next_id = 1\<rparr>" 7 "''u''" 5]
  by simp

section \<open>The claims about the authentication operations\<close>

lemma result_of_Returns:
  "result_of (Returns rsp) = Returns \<lparr>success = (rsp = None), error = map_option message rsp\<rparr>"
  by (cases rsp) (simp_all add: result_of_def)

text \<open>
  Claim C9. Whatever the service answers, with an error or without, each of the four
  operations returns a result value: \<open>{success: true}\<close> when the answer carries no
  error, \<open>{success: false, error: message}\<close> with the error's message when it does; it
  does not throw.
\<close>

theorem auth_operations_return_results:
  "(signInWithPassword (email', password) st = (Returns rsp, st') \<longrightarrow>
      login signInWithPassword email' password st
        = (Returns \<lparr>success = (rsp = None), error = map_option message rsp\<rparr>, st'))
   \<and> (signUp \<lparr>req_email = userData ''email'', req_password = userData ''password'',
                req_data = (Map.empty(''name'' := userData ''name'',
                                      ''address'' := userData ''address''))
                           (''role'' \<mapsto> ''user'')\<rparr> st = (Returns rsp, st') \<longrightarrow>
      register signUp userData st
        = (Returns \<lparr>success = (rsp = None), error = map_option message rsp\<rparr>, st'))
   \<and> (updateUser newPassword st = (Returns rsp, st') \<longrightarrow>
      updatePassword updateUser currentPassword newPassword st
        = (Returns \<lparr>success = (rsp = None), error = map_option message rsp\<rparr>, st'))
   \<and> (signUp \<lparr>req_email = userData ''email'', req_password = userData ''password'',
                req_data = Map.empty(''name'' := userData ''name'',
                                     ''address'' := userData ''address'',
                                     ''role'' := userData ''role'')\<rparr> st = (Returns rsp, st') \<longrightarrow>
      createUser signUp userData st
        = (Returns \<lparr>success = (rsp = None), error = map_option message rsp\<rparr>, st'))"
  by (simp add: login_def register_def updatePassword_def createUser_def result_of_Returns)

theorem auth_operations_return_results_witness:
  "login (\<lambda>c s. (Returns (Some \<lparr>message = ''Invalid login credentials''\<rparr>), s))
      (Some ''a@example.org'') (Some ''pw'') (0::nat)
     = (Returns \<lparr>success = False, error = Some ''Invalid login credentials''\<rparr>, 0)
   \<and> register (\<lambda>c s. (Returns None, Suc s)) [''email'' \<mapsto> ''a@example.org''] (0::nat)
     = (Returns \<lparr>success = True, error = None\<rparr>, 1)
   \<and> updatePassword (\<lambda>c s. (Returns (Some \<lparr>message = ''Password too short''\<rparr>), s))
      (Some ''old'') (Some ''new'') (0::nat)
     = (Returns \<lparr>success = False, error = Some ''Password too short''\<rparr>, 0)
   \<and> createUser (\<lambda>c s. (Returns None, Suc s)) [''role'' \<mapsto> ''admin''] (0::nat)
     = (Returns \<lparr>success = True, error = None\<rparr>, 1)"
proof -
  have a: "login (\<lambda>c s. (Returns (Some \<lparr>message = ''Invalid login credentials''\<rparr>), s))
      (Some ''a@example.org'') (Some ''pw'') (0::nat)
     = (Returns \<lparr>success = False, error = Some ''Invalid login credentials''\<rparr>, 0)"
    using auth_operations_return_results
      [of "\<lambda>c s. (Returns (Some \<lparr>message = ''Invalid login credentials''\<rparr>), s)"
        "Some ''a@example.org''" "Some ''pw''" "0::nat"
        "Some \<lparr>message = ''Invalid login credentials''\<rparr>" 0]
    by simp
  have b: "register (\<lambda>c s. (Returns None, Suc s)) [''email'' \<mapsto> ''a@example.org''] (0::nat)
     = (Returns \<lparr>success = True, error = None\<rparr>, 1)"
    using auth_operations_return_results
      [of _ _ _ "0::nat" None 1 "\<lambda>c s. (Returns None, Suc s)" "[''email'' \<mapsto> ''a@example.org'']"]
    by simp
  have c: "updatePassword (\<lambda>c s. (Returns (Some \<lparr>message = ''Password too short''\<rparr>), s))
      (Some ''old'') (Some ''new'') (0::nat)
     = (Returns \<lparr>success = False, error = Some ''Password too short''\<rparr>, 0)"
    using auth_operations_return_results
      [of _ _ _ "0::nat" "Some \<lparr>message = ''Password too short''\<rparr>" 0 _ _
        "\<lambda>c s. (Returns (Some \<lparr>message = ''Password too short''\<rparr>), s)" "Some ''new''" "Some ''old''"]
    by simp
  have d: "createUser (\<lambda>c s. (Returns None, Suc s)) [''role'' \<mapsto> ''admin''] (0::nat)
     = (Returns \<lparr>success = True, error = None\<rparr>, 1)"
    using auth_operations_return_results
      [of _ _ _ "0::nat" None 1 "\<lambda>c s. (Returns None, Suc s)" "[''role'' \<mapsto> ''admin'']"]
    by simp
  show ?thesis using a b c d by blast
qed

lemma register_drops_role:
  "register signUp (userData(''role'' := r)) st = register signUp userData st"
  by (simp add: register_def)

lemma cast_user: "cast_user_role (Some ''user'') = Inr (Some User)"
  by (simp add: cast_user_role_def)

lemma insert_profile_role:
  "insert_profile k ps i n a (Some r) = Inr p \<Longrightarrow> p_role p = r \<and> Some (p_name p) = n \<and> Some (p_address p) = a \<and> p_id p = i"
  by (auto simp: insert_profile_def split: option.splits if_splits)

lemma trigger_role:
  assumes "trg = handle_new_user \<or> trg = handle_new_user_coalesce"
    and "raw_user_meta_data new ''role'' = Some ''user''"
    and "trg ps new = Inr p"
  shows "p_role p = User \<and> Some (p_name p) = raw_user_meta_data new ''name''
    \<and> Some (p_address p) = raw_user_meta_data new ''address'' \<and> p_id p = u_id new"
  using assms insert_profile_role
  by (auto simp: handle_new_user_def handle_new_user_coalesce_def cast_user)

text \<open>
  Claim C3. \<open>register\<close> sends the role \<open>user\<close> whatever role its caller supplies (the
  request, and so the outcome, is the same for every supplied role), and through the
  sign-up service with either version of the trigger \<open>handle_new_user\<close> it either fails
  and stores nothing, or succeeds and stores exactly one new profile, whose role is
  \<open>user\<close> and whose name and address are the caller's.
\<close>

theorem register_assigns_user_role:
  assumes "trg = handle_new_user \<or> trg = handle_new_user_coalesce"
    and "register (auth_signUp refuse fresh trg) userData db = (res, db')"
  shows "register (auth_signUp refuse fresh trg) (userData(''role'' := r)) db = (res, db')
    \<and> ((\<exists>m. res = Returns \<lparr>success = False, error = Some m\<rparr>) \<and> db' = db
       \<or> res = Returns \<lparr>success = True, error = None\<rparr>
         \<and> (\<exists>p. profiles db' = profiles db @ [p] \<and> p_role p = User
                \<and> Some (p_name p) = userData ''name''
                \<and> Some (p_address p) = userData ''address''))"
proof -
  define req where "req = \<lparr>req_email = userData ''email'', req_password = userData ''password'',
     req_data = (Map.empty(''name'' := userData ''name'', ''address'' := userData ''address''))
                (''role'' \<mapsto> ''user'')\<rparr>"
  define new where "new = \<lparr>u_id = fresh db, u_email = req_email req,
     raw_user_meta_data = req_data req\<rparr>"
  have same: "register (auth_signUp refuse fresh trg) (userData(''role'' := r)) db = (res, db')"
    using assms(2) by (simp only: register_drops_role)
  have reg: "register (auth_signUp refuse fresh trg) userData db
    = (case auth_signUp refuse fresh trg req db of (a, st') \<Rightarrow> (result_of a, st'))"
    by (simp add: register_def req_def)
  have meta: "raw_user_meta_data new ''role'' = Some ''user''"
    "raw_user_meta_data new ''name'' = userData ''name''"
    "raw_user_meta_data new ''address'' = userData ''address''"
    by (simp_all add: new_def req_def)
  have out: "(\<exists>m. res = Returns \<lparr>success = False, error = Some m\<rparr>) \<and> db' = db
       \<or> res = Returns \<lparr>success = True, error = None\<rparr>
         \<and> (\<exists>p. profiles db' = profiles db @ [p] \<and> p_role p = User
                \<and> Some (p_name p) = userData ''name''
                \<and> Some (p_address p) = userData ''address'')"
  proof (cases "refuse req db")
    case (Some e)
    then have "auth_signUp refuse fresh trg req db = (Returns (Some e), db)"
      by (simp add: auth_signUp_def)
    then have "res = Returns \<lparr>success = False, error = Some (message e)\<rparr>" "db' = db"
      using assms(2) reg by (simp_all add: result_of_Returns)
    then show ?thesis by blast
  next
    case None
    show ?thesis
    proof (cases "trg (profiles db) new")
      case (Inl e)
      then have "auth_signUp refuse fresh trg req db
        = (Returns (Some \<lparr>message = ''Database error saving new user''\<rparr>), db)"
        using None by (simp add: auth_signUp_def Let_def new_def)
      then have "res = Returns \<lparr>success = False, error = Some ''Database error saving new user''\<rparr>"
        "db' = db"
        using assms(2) reg by (simp_all add: result_of_Returns)
      then show ?thesis by blast
    next
      case (Inr p)
      then have "auth_signUp refuse fresh trg req db
        = (Returns None, db\<lparr>users := users db @ [new], profiles := profiles db @ [p]\<rparr>)"
        using None by (simp add: auth_signUp_def Let_def new_def)
      then have r: "res = Returns \<lparr>success = True, error = None\<rparr>"
        and d: "db' = db\<lparr>users := users db @ [new], profiles := profiles db @ [p]\<rparr>"
        using assms(2) reg by (simp_all add: result_of_Returns)
      have "p_role p = User \<and> Some (p_name p) = userData ''name''
          \<and> Some (p_address p) = userData ''address''"
        using trigger_role [OF assms(1) meta(1) Inr] meta(2,3) by simp
      moreover have "profiles db' = profiles db @ [p]" by (simp add: d)
      ultimately show ?thesis using r by blast
    qed
  qed
  show ?thesis using same out by blast
qed

theorem register_assigns_user_role_witness:
  "register (auth_signUp (\<lambda>req db. None) (\<lambda>db. ''id-1'') handle_new_user)
      [''name'' \<mapsto> ''Alice'', ''email'' \<mapsto> ''alice@example.org'', ''address'' \<mapsto> ''1 Main Street'',
       ''password'' \<mapsto> ''Secret#1'', ''role'' \<mapsto> ''admin'']
      \<lparr>users = [], profiles = []\<rparr>
   = (Returns \<lparr>success = True, error = None\<rparr>,
      \<lparr>users = [\<lparr>u_id = ''id-1'', u_email = Some ''alice@example.org'',
                  raw_user_meta_data = [''name'' \<mapsto> ''Alice'', ''address'' \<mapsto> ''1 Main Street'',
                                        ''role'' \<mapsto> ''user'']\<rparr>],
       profiles = [\<lparr>p_id = ''id-1'', p_name = ''Alice'', p_address = ''1 Main Street'',
                    p_role = User\<rparr>]\<rparr>)
   \<and> register (auth_signUp (\<lambda>req db. None) (\<lambda>db. ''id-1'') handle_new_user)
      ([''name'' \<mapsto> ''Alice'', ''email'' \<mapsto> ''alice@example.org'', ''address'' \<mapsto> ''1 Main Street'',
        ''password'' \<mapsto> ''Secret#1'', ''role'' \<mapsto> ''admin''](''role'' := Some ''store_owner''))
      \<lparr>users = [], profiles = []\<rparr>
   = (Returns \<lparr>success = True, error = None\<rparr>,
      \<lparr>users = [\<lparr>u_id = ''id-1'', u_email = Some ''alice@example.org'',
                  raw_user_meta_data = [''name'' \<mapsto> ''Alice'', ''address'' \<mapsto> ''1 Main Street'',
                                        ''role'' \<mapsto> ''user'']\<rparr>],
       profiles = [\<lparr>p_id = ''id-1'', p_name = ''Alice'', p_address = ''1 Main Street'',
                    p_role = User\<rparr>]\<rparr>)"
proof -
  let ?U = "[''name'' \<mapsto> ''Alice'', ''email'' \<mapsto> ''alice@example.org'', ''address'' \<mapsto> ''1 Main Street'',
       ''password'' \<mapsto> ''Secret#1'', ''role'' \<mapsto> ''admin'']"
  let ?D = "\<lparr>users = [\<lparr>u_id = ''id-1'', u_email = Some ''alice@example.org'',
                  raw_user_meta_data = [''name'' \<mapsto> ''Alice'', ''address'' \<mapsto> ''1 Main Street'',
                                        ''role'' \<mapsto> ''user'']\<rparr>],
       profiles = [\<lparr>p_id = ''id-1'', p_name = ''Alice'', p_address = ''1 Main Street'',
                    p_role = User\<rparr>]\<rparr>"
  have t: "handle_new_user = handle_new_user \<or> handle_new_user = handle_new_user_coalesce" by simp
  have m: "(Map.empty(''name'' := ?U ''name'', ''address'' := ?U ''address''))(''role'' \<mapsto> ''user'')
    = [''name'' \<mapsto> ''Alice'', ''address'' \<mapsto> ''1 Main Street'', ''role'' \<mapsto> ''user'']"
    by (rule ext) simp
  have run: "register (auth_signUp (\<lambda>req db. None) (\<lambda>db. ''id-1'') handle_new_user) ?U
      \<lparr>users = [], profiles = []\<rparr> = (Returns \<lparr>success = True, error = None\<rparr>, ?D)"
    unfolding register_def m
    by (simp add: auth_signUp_def Let_def handle_new_user_def cast_user_role_def
        insert_profile_def result_of_def)
  show ?thesis
    using register_assigns_user_role [OF t run, of "Some ''store_owner''"] run by simp
qed

section \<open>The claims about the session callback and the router\<close>

lemma exec_Nil: "exec as s = [] \<longleftrightarrow> as = []"
  by (cases as) simp_all

lemma exec_last: "as \<noteq> [] \<Longrightarrow> last (exec as s) = final as s"
  by (induction as arbitrary: s) (auto simp: final_def exec_Nil)

lemma exec_length: "length (exec as s) = length as"
  by (induction as arbitrary: s) auto

lemma handler_no_session:
  "onAuthStateChange fetched None = [SetLoading True, SetUser None, SetLoading False]"
  by (simp add: onAuthStateChange_def)

lemma handler_profile:
  "onAuthStateChange (Inr (Some profile)) (Some su)
   = [SetLoading True, AwaitGetProfile, SetUser (Some (su ++ profile)), SetLoading False]"
  by (simp add: onAuthStateChange_def)

lemma handler_no_profile:
  assumes "fetched = Inl e \<or> fetched = Inr None"
  shows "onAuthStateChange fetched (Some su)
   = [SetLoading True, AwaitGetProfile, Console, AwaitSignOut, SetUser None, SetLoading False]"
  using assms by (auto simp: onAuthStateChange_def)

lemma fetched_cases:
  obtains (failed) e where "fetched = Inl e" | (absent) "fetched = Inr None"
  | (found) profile where "fetched = Inr (Some profile)"
proof (cases fetched)
  case (Inl e)
  then show thesis by (rule failed)
next
  case (Inr b)
  then show thesis by (cases b) (auto intro: absent found)
qed

lemma AppRouter_loading: "loading s \<Longrightarrow> AppRouter m s loc = LoadingSpinner"
  by (simp add: AppRouter_def)

lemma AppRouter_anonymous:
  "\<not> loading s \<Longrightarrow> user s = None \<Longrightarrow>
   AppRouter m s loc = (if m ''/login'' loc then Login
                        else if m ''/register'' loc then Register else Navigate ''/login'')"
  by (simp add: AppRouter_def routes_def)

lemma AppRouter_admin:
  "\<not> loading s \<Longrightarrow> user s = Some u \<Longrightarrow> u ''role'' = Some ''admin'' \<Longrightarrow>
   AppRouter m s loc = (if m ''/admin'' loc then AdminDashboard else Navigate ''/admin'')"
  by (simp add: AppRouter_def routes_def getDashboardPath_def)

lemma AppRouter_user:
  "\<not> loading s \<Longrightarrow> user s = Some u \<Longrightarrow> u ''role'' = Some ''user'' \<Longrightarrow>
   AppRouter m s loc = (if m ''/user'' loc then UserDashboard else Navigate ''/user'')"
  by (simp add: AppRouter_def routes_def getDashboardPath_def)

lemma AppRouter_store_owner:
  "\<not> loading s \<Longrightarrow> user s = Some u \<Longrightarrow> u ''role'' = Some ''store_owner'' \<Longrightarrow>
   AppRouter m s loc = (if m ''/store-owner'' loc then StoreOwnerDashboard
                        else Navigate ''/store-owner'')"
  by (simp add: AppRouter_def routes_def getDashboardPath_def)

text \<open>
  Claim C5. On an auth event that carries an identity, when the profile fetch throws or
  answers with no profile, the callback signs out and ends with the session user empty
  and loading over; in every state on the way the provider is loading or has no user,
  so the router renders no dashboard; and \<open>getProfile\<close> throws when the profiles table
  has no row for the identity.
\<close>

theorem missing_profile_forces_sign_out:
  assumes "fetched = Inl e \<or> fetched = Inr None"
  shows "AwaitSignOut \<in> set (onAuthStateChange fetched (Some su))
    \<and> final (onAuthStateChange fetched (Some su)) s = \<lparr>user = None, loading = False\<rparr>
    \<and> (\<forall>s' \<in> set (exec (onAuthStateChange fetched (Some su)) s).
          (loading s' \<or> user s' = None)
          \<and> AppRouter m s' loc \<noteq> AdminDashboard \<and> AppRouter m s' loc \<noteq> UserDashboard
          \<and> AppRouter m s' loc \<noteq> StoreOwnerDashboard)
    \<and> (filter (\<lambda>p. p_id p = uid) ps = [] \<longrightarrow> getProfile ps uid = Inl NotFound)"
proof -
  note acts = handler_no_profile [OF assms, of su]
  have a: "AwaitSignOut \<in> set (onAuthStateChange fetched (Some su))" by (simp add: acts)
  have b: "final (onAuthStateChange fetched (Some su)) s = \<lparr>user = None, loading = False\<rparr>"
    by (simp add: acts final_def)
  have c: "(loading s' \<or> user s' = None)
      \<and> AppRouter m s' loc \<noteq> AdminDashboard \<and> AppRouter m s' loc \<noteq> UserDashboard
      \<and> AppRouter m s' loc \<noteq> StoreOwnerDashboard"
    if "s' \<in> set (exec (onAuthStateChange fetched (Some su)) s)" for s'
  proof (cases "loading s'")
    case True
    then show ?thesis by (simp add: AppRouter_loading)
  next
    case False
    then have "user s' = None" using that by (auto simp: acts)
    then show ?thesis using False by (simp add: AppRouter_anonymous)
  qed
  have d: "filter (\<lambda>p. p_id p = uid) ps = [] \<longrightarrow> getProfile ps uid = Inl NotFound"
    by (simp add: getProfile_def)
  have c': "\<forall>s' \<in> set (exec (onAuthStateChange fetched (Some su)) s).
          (loading s' \<or> user s' = None)
          \<and> AppRouter m s' loc \<noteq> AdminDashboard \<and> AppRouter m s' loc \<noteq> UserDashboard
          \<and> AppRouter m s' loc \<noteq> StoreOwnerDashboard"
    by (intro ballI c)
  show ?thesis by (intro conjI a b c' d)
qed

theorem missing_profile_forces_sign_out_witness:
  "getProfile [\<lparr>p_id = ''id-1'', p_name = ''Alice'', p_address = ''A'', p_role = Admin\<rparr>] ''id-2''
     = Inl NotFound
   \<and> AwaitSignOut \<in> set (onAuthStateChange (Inl NotFound) (Some [''id'' \<mapsto> ''id-2'']))
   \<and> final (onAuthStateChange (Inl NotFound) (Some [''id'' \<mapsto> ''id-2'']))
        \<lparr>user = Some [''id'' \<mapsto> ''id-1'', ''role'' \<mapsto> ''admin''], loading = False\<rparr>
     = \<lparr>user = None, loading = False\<rparr>
   \<and> AppRouter (=) (exec (onAuthStateChange (Inl NotFound) (Some [''id'' \<mapsto> ''id-2'']))
        \<lparr>user = Some [''id'' \<mapsto> ''id-1'', ''role'' \<mapsto> ''admin''], loading = False\<rparr> ! 1) ''/admin''
     \<noteq> AdminDashboard"
proof -
  let ?s = "\<lparr>user = Some [''id'' \<mapsto> ''id-1'', ''role'' \<mapsto> ''admin''], loading = False\<rparr>"
  let ?acts = "onAuthStateChange (Inl NotFound) (Some [''id'' \<mapsto> ''id-2''])"
  have h: "(Inl NotFound :: service_error + js_object option) = Inl NotFound
      \<or> (Inl NotFound :: service_error + js_object option) = Inr None" by simp
  have f: "filter (\<lambda>p. p_id p = ''id-2'')
      [\<lparr>p_id = ''id-1'', p_name = ''Alice'', p_address = ''A'', p_role = Admin\<rparr>] = []" by simp
  have "length (exec ?acts ?s) = 6" by (simp add: exec_length handler_no_profile)
  then have i: "exec ?acts ?s ! 1 \<in> set (exec ?acts ?s)" by simp
  show ?thesis
    using missing_profile_forces_sign_out [OF h, of "[''id'' \<mapsto> ''id-2'']" ?s "(=)" "''/admin''"
        "''id-2''" "[\<lparr>p_id = ''id-1'', p_name = ''Alice'', p_address = ''A'', p_role = Admin\<rparr>]"]
      f i by blast
qed

text \<open>
  Claim C8, as amended. Every run of the callback enters loading again: it ends not
  loading, with no user when the event carries no session or the profile is missing, and
  with the session's identity merged with its profile otherwise; every state before its
  last is loading (the router renders the spinner there), and with a session the
  callback awaits the profile fetch in such a state.
\<close>

theorem auth_event_passes_through_loading:
  "\<not> loading (final (onAuthStateChange fetched session_user) s)
   \<and> last (exec (onAuthStateChange fetched session_user) s)
       = final (onAuthStateChange fetched session_user) s
   \<and> user (final (onAuthStateChange fetched session_user) s)
       = (case (session_user, fetched) of
            (Some su, Inr (Some profile)) \<Rightarrow> Some (su ++ profile)
          | _ \<Rightarrow> None)
   \<and> (\<forall>k < length (onAuthStateChange fetched session_user) - 1.
         loading (exec (onAuthStateChange fetched session_user) s ! k)
         \<and> AppRouter m (exec (onAuthStateChange fetched session_user) s ! k) loc = LoadingSpinner)
   \<and> (session_user \<noteq> None \<longrightarrow> onAuthStateChange fetched session_user ! 1 = AwaitGetProfile)"
proof (cases session_user)
  case None
  show ?thesis
    unfolding None handler_no_session
    by (auto simp: final_def AppRouter_loading less_Suc_eq)
next
  case (Some su)
  show ?thesis
  proof (cases fetched rule: fetched_cases)
    case (failed e)
    then have h: "fetched = Inl e \<or> fetched = Inr None" by simp
    show ?thesis
      unfolding Some handler_no_profile [OF h]
      by (auto simp: final_def AppRouter_loading failed less_Suc_eq)
  next
    case absent
    then have h: "fetched = Inl NotFound \<or> fetched = Inr None" by simp
    show ?thesis
      unfolding Some handler_no_profile [OF h]
      by (auto simp: final_def AppRouter_loading absent less_Suc_eq)
  next
    case (found profile)
    show ?thesis
      unfolding Some found handler_profile
      by (auto simp: final_def AppRouter_loading less_Suc_eq)
  qed
qed

theorem auth_event_passes_through_loading_witness:
  "\<not> loading (final (onAuthStateChange (Inr (Some [''role'' \<mapsto> ''user''])) (Some [''id'' \<mapsto> ''id-1'']))
        \<lparr>user = None, loading = False\<rparr>)
   \<and> user (final (onAuthStateChange (Inr (Some [''role'' \<mapsto> ''user''])) (Some [''id'' \<mapsto> ''id-1'']))
        \<lparr>user = None, loading = False\<rparr>)
     = Some ([''id'' \<mapsto> ''id-1''] ++ [''role'' \<mapsto> ''user''])
   \<and> loading (exec (onAuthStateChange (Inr (Some [''role'' \<mapsto> ''user''])) (Some [''id'' \<mapsto> ''id-1'']))
        \<lparr>user = None, loading = False\<rparr> ! 1)
   \<and> onAuthStateChange (Inr (Some [''role'' \<mapsto> ''user''])) (Some [''id'' \<mapsto> ''id-1'']) ! 1
     = AwaitGetProfile"
proof -
  have k: "(1::nat) < length (onAuthStateChange (Inr (Some [''role'' \<mapsto> ''user'']))
      (Some [''id'' \<mapsto> ''id-1''])) - 1"
    by (simp add: handler_profile)
  show ?thesis
    using auth_event_passes_through_loading
      [of "Inr (Some [''role'' \<mapsto> ''user''])" "Some [''id'' \<mapsto> ''id-1'']"
        "\<lparr>user = None, loading = False\<rparr>" "(=)" "''/user''"] k
    by simp
qed

text \<open>
  The claim as stated fails: after the first resolution has signed an admin in (the
  state is not loading and the router renders the admin dashboard), the next event with
  the same session sets loading, and while the callback awaits the profile fetch the
  router renders the spinner.
\<close>

theorem auth_event_passes_through_loading_counterexample:
  "final (onAuthStateChange (Inr (Some [''id'' \<mapsto> ''id-1'', ''role'' \<mapsto> ''admin'']))
      (Some [''id'' \<mapsto> ''id-1''])) initial_state
     = \<lparr>user = Some ([''id'' \<mapsto> ''id-1''] ++ [''id'' \<mapsto> ''id-1'', ''role'' \<mapsto> ''admin'']),
        loading = False\<rparr>
   \<and> AppRouter (=)
        \<lparr>user = Some ([''id'' \<mapsto> ''id-1''] ++ [''id'' \<mapsto> ''id-1'', ''role'' \<mapsto> ''admin'']),
         loading = False\<rparr> ''/admin'' = AdminDashboard
   \<and> onAuthStateChange (Inr (Some [''id'' \<mapsto> ''id-1'', ''role'' \<mapsto> ''admin'']))
        (Some [''id'' \<mapsto> ''id-1'']) ! 1 = AwaitGetProfile
   \<and> loading (exec (onAuthStateChange (Inr (Some [''id'' \<mapsto> ''id-1'', ''role'' \<mapsto> ''admin'']))
        (Some [''id'' \<mapsto> ''id-1'']))
        \<lparr>user = Some ([''id'' \<mapsto> ''id-1''] ++ [''id'' \<mapsto> ''id-1'', ''role'' \<mapsto> ''admin'']),
         loading = False\<rparr> ! 1)
   \<and> AppRouter (=)
        (exec (onAuthStateChange (Inr (Some [''id'' \<mapsto> ''id-1'', ''role'' \<mapsto> ''admin'']))
          (Some [''id'' \<mapsto> ''id-1'']))
          \<lparr>user = Some ([''id'' \<mapsto> ''id-1''] ++ [''id'' \<mapsto> ''id-1'', ''role'' \<mapsto> ''admin'']),
           loading = False\<rparr> ! 1) ''/admin'' = LoadingSpinner"
  by (simp add: handler_profile final_def initial_state_def AppRouter_def routes_def
      getDashboardPath_def)

lemma exec_user:
  "s' \<in> set (exec as s) \<Longrightarrow> user s' = user s \<or> SetUser (user s') \<in> set as"
proof (induction as arbitrary: s)
  case Nil
  then show ?case by simp
next
  case (Cons a as)
  show ?case
  proof (cases "s' = step a s")
    case True
    then show ?thesis by (cases a) simp_all
  next
    case False
    then have "s' \<in> set (exec as (step a s))" using Cons.prems by simp
    then have "user s' = user (step a s) \<or> SetUser (user s') \<in> set as" by (rule Cons.IH)
    then show ?thesis by (cases a) auto
  qed
qed

lemma getProfile_cases:
  obtains (none) "getProfile ps uid = Inl NotFound"
  | (row) p where "getProfile ps uid = Inr (Some (profile_object p))"
proof (cases "filter (\<lambda>p. p_id p = uid) ps")
  case Nil
  then show thesis by (intro none) (simp add: getProfile_def)
next
  case (Cons p rest)
  then show thesis by (cases rest) (auto simp: getProfile_def intro: none row)
qed

lemma profile_role:
  "(su ++ profile_object p) ''role'' = Some ''admin''
   \<or> (su ++ profile_object p) ''role'' = Some ''user''
   \<or> (su ++ profile_object p) ''role'' = Some ''store_owner''"
  by (cases "p_role p") (simp_all add: profile_object_def map_add_def)

lemma reachable_role:
  assumes "reachable s" "user s = Some u"
  shows "u ''role'' = Some ''admin'' \<or> u ''role'' = Some ''user'' \<or> u ''role'' = Some ''store_owner''"
  using assms
proof (induction arbitrary: u rule: reachable.induct)
  case init
  then show ?case by (simp add: initial_state_def)
next
  case (signed_out s s' fetched)
  from exec_user [OF signed_out.hyps(2)] signed_out.prems have "user s = Some u"
    by (auto simp: handler_no_session)
  then show ?case by (rule signed_out.IH)
next
  case (fetch_failed s s' e su)
  have h: "(Inl e :: service_error + js_object option) = Inl e \<or> Inl e = Inr None" by simp
  from exec_user [OF fetch_failed.hyps(2)] fetch_failed.prems have "user s = Some u"
    by (auto simp: handler_no_profile [OF h])
  then show ?case by (rule fetch_failed.IH)
next
  case (fetched s s' ps uid su)
  show ?case
  proof (cases ps uid rule: getProfile_cases)
    case none
    then have h: "getProfile ps uid = Inl NotFound \<or> getProfile ps uid = Inr None" by simp
    from exec_user [OF fetched.hyps(2)] fetched.prems have "user s = Some u"
      by (auto simp: handler_no_profile [OF h])
    then show ?thesis by (rule fetched.IH)
  next
    case (row p)
    from exec_user [OF fetched.hyps(2)] fetched.prems
    have "user s = Some u \<or> u = su ++ profile_object p"
      by (auto simp: row handler_profile)
    then show ?thesis using fetched.IH profile_role [of su p] by auto
  qed
next
  case (logged_out s s')
  from exec_user [OF logged_out.hyps(2)] logged_out.prems have "user s = Some u"
    by (auto simp: logout_def)
  then show ?case by (rule logged_out.IH)
qed

text \<open>
  Claim C4. In every state the provider can reach, the router renders the spinner while
  loading; for an anonymous session the sign-in view, the registration view, or a
  redirect to \<open>/login\<close>; and for a signed-in session, whose role is then one of the
  three, that role's dashboard where the location matches its path and a redirect to
  that path everywhere else: never another role's dashboard.
\<close>

theorem role_routing:
  assumes "reachable s"
  shows "(loading s \<longrightarrow> AppRouter m s loc = LoadingSpinner)
    \<and> (\<not> loading s \<and> user s = None \<longrightarrow>
         AppRouter m s loc = (if m ''/login'' loc then Login
                              else if m ''/register'' loc then Register
                              else Navigate ''/login''))
    \<and> (\<forall>u. \<not> loading s \<and> user s = Some u \<longrightarrow>
         u ''role'' = Some ''admin''
           \<and> AppRouter m s loc = (if m ''/admin'' loc then AdminDashboard else Navigate ''/admin'')
         \<or> u ''role'' = Some ''user''
           \<and> AppRouter m s loc = (if m ''/user'' loc then UserDashboard else Navigate ''/user'')
         \<or> u ''role'' = Some ''store_owner''
           \<and> AppRouter m s loc = (if m ''/store-owner'' loc then StoreOwnerDashboard
                                   else Navigate ''/store-owner''))"
proof (intro conjI allI impI)
  show "AppRouter m s loc = LoadingSpinner" if "loading s"
    using that by (rule AppRouter_loading)
  show "AppRouter m s loc = (if m ''/login'' loc then Login
                              else if m ''/register'' loc then Register
                              else Navigate ''/login'')" if "\<not> loading s \<and> user s = None"
    using that by (simp add: AppRouter_anonymous)
  show "u ''role'' = Some ''admin''
           \<and> AppRouter m s loc = (if m ''/admin'' loc then AdminDashboard else Navigate ''/admin'')
         \<or> u ''role'' = Some ''user''
           \<and> AppRouter m s loc = (if m ''/user'' loc then UserDashboard else Navigate ''/user'')
         \<or> u ''role'' = Some ''store_owner''
           \<and> AppRouter m s loc = (if m ''/store-owner'' loc then StoreOwnerDashboard
                                   else Navigate ''/store-owner'')"
    if h: "\<not> loading s \<and> user s = Some u" for u
  proof -
    have nl: "\<not> loading s" and us: "user s = Some u" using h by simp_all
    from reachable_role [OF assms us] show ?thesis
      using AppRouter_admin [OF nl us, of m loc] AppRouter_user [OF nl us, of m loc]
        AppRouter_store_owner [OF nl us, of m loc]
      by blast
  qed
qed

theorem role_routing_witness:
  "reachable (final (onAuthStateChange
       (getProfile [\<lparr>p_id = ''id-1'', p_name = ''Alice'', p_address = ''A'', p_role = Admin\<rparr>] ''id-1'')
       (Some [''id'' \<mapsto> ''id-1'', ''role'' \<mapsto> ''authenticated''])) initial_state)
   \<and> AppRouter (=) (final (onAuthStateChange
       (getProfile [\<lparr>p_id = ''id-1'', p_name = ''Alice'', p_address = ''A'', p_role = Admin\<rparr>] ''id-1'')
       (Some [''id'' \<mapsto> ''id-1'', ''role'' \<mapsto> ''authenticated''])) initial_state) ''/admin''
     = AdminDashboard
   \<and> AppRouter (=) (final (onAuthStateChange
       (getProfile [\<lparr>p_id = ''id-1'', p_name = ''Alice'', p_address = ''A'', p_role = Admin\<rparr>] ''id-1'')
       (Some [''id'' \<mapsto> ''id-1'', ''role'' \<mapsto> ''authenticated''])) initial_state) ''/user''
     = Navigate ''/admin''"
proof -
  let ?ps = "[\<lparr>p_id = ''id-1'', p_name = ''Alice'', p_address = ''A'', p_role = Admin\<rparr>]"
  let ?su = "[''id'' \<mapsto> ''id-1'', ''role'' \<mapsto> ''authenticated'']"
  let ?acts = "onAuthStateChange (getProfile ?ps ''id-1'') (Some ?su)"
  let ?S = "final ?acts initial_state"
  have g: "getProfile ?ps ''id-1''
    = Inr (Some (profile_object \<lparr>p_id = ''id-1'', p_name = ''Alice'', p_address = ''A'', p_role = Admin\<rparr>))"
    by (simp add: getProfile_def)
  have ne: "?acts \<noteq> []" by (simp add: g handler_profile)
  then have "exec ?acts initial_state \<noteq> []" by (simp add: exec_Nil)
  then have "last (exec ?acts initial_state) \<in> set (exec ?acts initial_state)" by (rule last_in_set)
  then have "?S \<in> set (exec ?acts initial_state)" by (simp only: exec_last [OF ne])
  with reachable.init have r: "reachable ?S" by (rule reachable.fetched)
  have S: "\<not> loading ?S"
    "user ?S = Some (?su ++ profile_object \<lparr>p_id = ''id-1'', p_name = ''Alice'', p_address = ''A'', p_role = Admin\<rparr>)"
    by (simp_all add: g handler_profile final_def initial_state_def)
  have role: "(?su ++ profile_object \<lparr>p_id = ''id-1'', p_name = ''Alice'', p_address = ''A'', p_role = Admin\<rparr>) ''role''
    = Some ''admin''"
    by (simp add: profile_object_def)
  have a: "AppRouter (=) ?S ''/admin'' = AdminDashboard"
    using role_routing [OF r, of "(=)" "''/admin''"] S role by simp
  have b: "AppRouter (=) ?S ''/user'' = Navigate ''/admin''"
    using role_routing [OF r, of "(=)" "''/user''"] S role by simp
  show ?thesis using r a b by blast
qed

end
